theory Spec2Isabelle
  imports Complex_Main
begin

section \<open>Split and merge detection between two TAD maps\<close>

text \<open>
  A shallow embedding of \<^verbatim>\<open>src/split_merge_detect.py\<close> and of the decorator
  \<^verbatim>\<open>wrapper_print\<close> of \<^verbatim>\<open>src/func_condition_wrapper.py\<close>.

  Conventions of the embedding.
  \<^item> A pandas frame is the list of its rows in order. Where the code reads the row labels
    (\<^verbatim>\<open>iterrows\<close>, \<^verbatim>\<open>.loc\<close>, \<^verbatim>\<open>df.index[-1]\<close>) a row comes with its integer label.
  \<^item> A float64 cell is a real number; \<open>NaN\<close> is a value of its own where the code can
    meet it (\<open>num\<close>). Rounding is not modelled: the coordinates are integers and
    half-integers of genomic size, which float64 holds exactly.
  \<^item> A Python exception is a value \<open>Inl e\<close> of \<open>error + 'a\<close>.
  \<^item> The cooler files and \<^verbatim>\<open>scipy.stats.mannwhitneyu\<close> are parameters: the repository
    holds no code of theirs.
\<close>

datatype error =
  UnboundLocalError | TypeError | ValueError | KeyError | IndexError | ExternalError string

datatype num = NaN | Num real

subsection \<open>TAD tables\<close>

text \<open>A TAD table has the columns \<^verbatim>\<open>chrom\<close>, \<^verbatim>\<open>start\<close>, \<^verbatim>\<open>end\<close>; the search regions and the
  second table after \<^verbatim>\<open>add_size_column\<close> have the column \<^verbatim>\<open>size\<close> too.\<close>

record tad =
  tad_chrom :: string
  tad_start :: real
  tad_end :: real

record sized_tad = tad +
  tad_size :: real

text \<open>A row of the frame that \<^verbatim>\<open>pd.merge(..., suffixes=('_tad1', '_tad2'))\<close> builds.\<close>

record row =
  chrom :: string
  start_tad1 :: real
  end_tad1 :: real
  size_tad1 :: real
  start_tad2 :: real
  end_tad2 :: real
  size_tad2 :: real

type_synonym frame = "(int \<times> row) list"

definition BINSIZE_COEF :: real where
  "BINSIZE_COEF = 3 / 2"

text \<open>\<^verbatim>\<open>Series.unique()\<close>: the distinct values in order of first appearance.\<close>

fun unique :: "'a list \<Rightarrow> 'a list" where
  "unique [] = []"
| "unique (x # xs) = x # unique (filter (\<lambda>y. y \<noteq> x) xs)"

text \<open>A fresh \<^verbatim>\<open>RangeIndex\<close>: the labels \<open>n, n + 1, \<dots>\<close> in row order.\<close>

fun range_index :: "int \<Rightarrow> 'a list \<Rightarrow> (int \<times> 'a) list" where
  "range_index n [] = []"
| "range_index n (x # xs) = (n, x) # range_index (n + 1) xs"

subsection \<open>Coordinate normalizer\<close>

text \<open>\<^verbatim>\<open>modify_tads_map_by_condition\<close>: the column arithmetic of pandas is row by row, so
  the frame operation is a \<open>map\<close> of the operation on one row.\<close>

definition modify_tad :: "tad \<Rightarrow> int \<Rightarrow> real \<Rightarrow> sized_tad" where
  "modify_tad t binsize length_flexibility =
     \<lparr>tad_chrom = tad_chrom t,
      tad_start = tad_start t - BINSIZE_COEF * of_int binsize,
      tad_end = tad_end t + BINSIZE_COEF * of_int binsize,
      tad_size = (tad_end t - tad_start t) * length_flexibility\<rparr>"

definition modify_tads_map_by_condition :: "tad list \<Rightarrow> int \<Rightarrow> real \<Rightarrow> sized_tad list" where
  "modify_tads_map_by_condition tad1_chr_coords binsize length_flexibility =
     map (\<lambda>t. modify_tad t binsize length_flexibility) tad1_chr_coords"

definition add_size :: "tad \<Rightarrow> sized_tad" where
  "add_size t =
     \<lparr>tad_chrom = tad_chrom t, tad_start = tad_start t, tad_end = tad_end t,
      tad_size = tad_end t - tad_start t\<rparr>"

definition add_size_column :: "tad list \<Rightarrow> sized_tad list" where
  "add_size_column tad2_chr_coords = map add_size tad2_chr_coords"

text \<open>\<^verbatim>\<open>demodify_tads_map\<close>: three column assignments in sequence, the third reading the two
  columns just written.\<close>

definition demodify_row :: "row \<Rightarrow> int \<Rightarrow> row" where
  "demodify_row r binsize =
     (let r1 = r\<lparr>start_tad1 := start_tad1 r + BINSIZE_COEF * of_int binsize\<rparr>;
          r2 = r1\<lparr>end_tad1 := end_tad1 r1 - BINSIZE_COEF * of_int binsize\<rparr>
      in r2\<lparr>size_tad1 := end_tad1 r2 - start_tad1 r2\<rparr>)"

subsection \<open>Interval matcher\<close>

text \<open>One row of the merge: the columns of a search region and of a sized TAD of the
  second table, which share the chromosome.\<close>

definition merge_row :: "sized_tad \<Rightarrow> sized_tad \<Rightarrow> row" where
  "merge_row a b =
     \<lparr>chrom = tad_chrom a,
      start_tad1 = tad_start a, end_tad1 = tad_end a, size_tad1 = tad_size a,
      start_tad2 = tad_start b, end_tad2 = tad_end b, size_tad2 = tad_size b\<rparr>"

text \<open>\<^verbatim>\<open>pd.merge(left, right, on='chrom', how='outer')\<close> for tables that hold one
  chromosome each, as \<^verbatim>\<open>get_chroms_coords\<close> hands them over: every left row is paired
  with every right row of its chromosome, left row by left row, under a fresh range
  index. (Rows without a partner would get NaN cells and fail every comparison of the
  next step; they are left out here.)\<close>

definition merge_on_chrom :: "sized_tad list \<Rightarrow> sized_tad list \<Rightarrow> frame" where
  "merge_on_chrom left right =
     range_index 0
       (concat (map (\<lambda>a. map (merge_row a) (filter (\<lambda>b. tad_chrom b = tad_chrom a) right)) left))"

text \<open>\<^verbatim>\<open>duplicated(subset='start_tad1', keep=False)\<close>: the row's \<^verbatim>\<open>start_tad1\<close> stands in
  two rows or more.\<close>

definition duplicated_start_tad1 :: "frame \<Rightarrow> row \<Rightarrow> bool" where
  "duplicated_start_tad1 df r =
     (2 \<le> length (filter (\<lambda>(i, r'). start_tad1 r' = start_tad1 r) df))"

text \<open>The \<^verbatim>\<open>groupby([...]).agg({...})\<close> frame after \<^verbatim>\<open>reset_index\<close>: one row per distinct
  \<^verbatim>\<open>(chrom, start_tad1, end_tad1, size_tad1)\<close> with the minimum, the maximum and the sum
  over the group. (pandas sorts the groups by key; only membership is read below, so
  they stay in order of first appearance here.)\<close>

definition group_key :: "row \<Rightarrow> string \<times> real \<times> real \<times> real" where
  "group_key r = (chrom r, start_tad1 r, end_tad1 r, size_tad1 r)"

definition agg_group :: "frame \<Rightarrow> string \<times> real \<times> real \<times> real \<Rightarrow> row" where
  "agg_group df k =
     (let members = filter (\<lambda>r. group_key r = k) (map snd df)
      in \<lparr>chrom = fst k,
          start_tad1 = fst (snd k), end_tad1 = fst (snd (snd k)), size_tad1 = snd (snd (snd k)),
          start_tad2 = Min (set (map start_tad2 members)),
          end_tad2 = Max (set (map end_tad2 members)),
          size_tad2 = sum_list (map size_tad2 members)\<rparr>)"

definition groupby_agg :: "frame \<Rightarrow> row list" where
  "groupby_agg df = map (agg_group df) (unique (map (group_key \<circ> snd) df))"

definition find_split :: "tad list \<Rightarrow> tad list \<Rightarrow> int \<Rightarrow> real \<Rightarrow> frame" where
  "find_split tad1_chr_coords tad2_chr_coords binsize length_flexibility =
     (let tad1_search_regs = modify_tads_map_by_condition tad1_chr_coords binsize length_flexibility;
          tad2_comp_regs = add_size_column tad2_chr_coords;
          merged = merge_on_chrom tad1_search_regs tad2_comp_regs;
          contained = filter (\<lambda>(i, r). start_tad1 r \<le> start_tad2 r \<and> end_tad1 r \<ge> end_tad2 r
                                        \<and> size_tad1 r \<ge> size_tad2 r) merged;
          dup = filter (\<lambda>(i, r). duplicated_start_tad1 contained r) contained;
          tads_region_intersect_size =
            filter (\<lambda>g. size_tad1 g \<ge> size_tad2 g) (groupby_agg dup)
      in filter (\<lambda>(i, r). start_tad1 r \<in> set (map start_tad1 tads_region_intersect_size)) dup)"

subsection \<open>Chromosomes of the two tables\<close>

text \<open>\<^verbatim>\<open>get_chrom_list\<close>. The first component tells whether \<^verbatim>\<open>warnings.warn\<close> was
  called (with the text "Different numbers of chromosomes were detected!"); the second is
  the returned list. \<^verbatim>\<open>chrom in tad2_chrom_list\<close> on a numpy array is membership.\<close>

definition get_chrom_list :: "tad list \<Rightarrow> tad list \<Rightarrow> bool \<times> string list" where
  "get_chrom_list tad1 tad2 =
     (let tad1_chrom_list = unique (map tad_chrom tad1);
          tad2_chrom_list = unique (map tad_chrom tad2)
      in (length tad1_chrom_list \<noteq> length tad2_chrom_list,
          filter (\<lambda>chrom. chrom \<in> set tad2_chrom_list) tad1_chrom_list))"

definition get_chroms_coords :: "tad list \<Rightarrow> tad list \<Rightarrow> string \<Rightarrow> tad list \<times> tad list" where
  "get_chroms_coords tad1 tad2 c =
     (filter (\<lambda>t. tad_chrom t = c) tad1, filter (\<lambda>t. tad_chrom t = c) tad2)"

subsection \<open>Region and bin resolver\<close>

type_synonym main_coords = "string \<times> real \<times> real"
type_synonym region = "string \<times> real \<times> real"

text \<open>\<^verbatim>\<open>find_region\<close>. \<^verbatim>\<open>max\<close> and \<^verbatim>\<open>min\<close> of an empty list raise \<^verbatim>\<open>ValueError\<close>.\<close>

definition find_region :: "main_coords \<Rightarrow> (real \<times> real) list \<Rightarrow> error + region" where
  "find_region main_tad_coords small_tads_coords =
     (if small_tads_coords = [] then Inl ValueError
      else
        let main_start = fst (snd main_tad_coords);
            main_end = snd (snd main_tad_coords);
            small_start = Max (set (map (\<lambda>(s, e). max s e) small_tads_coords));
            small_end = Min (set (map (\<lambda>(s, e). min s e) small_tads_coords))
        in Inr (fst main_tad_coords, min main_start small_start, max main_end small_end))"

text \<open>\<^verbatim>\<open>find_coords\<close>: the loop returns at the first pair that holds the position; when it
  runs out, the function ends without a \<^verbatim>\<open>return\<close> and its value is Python's \<^verbatim>\<open>None\<close>,
  here \<open>None\<close>.\<close>

fun find_coords_from :: "nat \<Rightarrow> real \<Rightarrow> (real \<times> real) list \<Rightarrow> nat option" where
  "find_coords_from i position [] = None"
| "find_coords_from i position ((first, second) # coords) =
     (if first \<le> position \<and> position \<le> second then Some i
      else find_coords_from (Suc i) position coords)"

definition find_coords :: "real \<Rightarrow> (real \<times> real) list \<Rightarrow> nat option" where
  "find_coords position coords = find_coords_from 0 position coords"

subsection \<open>Intensity comparator\<close>

text \<open>The significance test provider, \<^verbatim>\<open>mannwhitneyu(x, y, method='asymptotic')\<close>: it
  raises or returns the pair of the statistic and the p-value.\<close>

type_synonym mwu = "num list \<Rightarrow> num list \<Rightarrow> error + (num \<times> num)"

definition calculate_pvalue :: "mwu \<Rightarrow> num list \<Rightarrow> num list \<Rightarrow> error + num" where
  "calculate_pvalue mannwhitneyu square_intensity hill_intensity =
     (case mannwhitneyu square_intensity hill_intensity of
        Inl e \<Rightarrow> Inl e
      | Inr (stat, pvalue) \<Rightarrow> Inr pvalue)"

text \<open>A Python slice \<^verbatim>\<open>xs[a:b]\<close> with bounds that are \<^verbatim>\<open>None\<close> or not negative.\<close>

definition py_slice :: "nat option \<Rightarrow> nat option \<Rightarrow> 'a list \<Rightarrow> 'a list" where
  "py_slice a b xs =
     drop (case a of None \<Rightarrow> 0 | Some i \<Rightarrow> i) (take (case b of None \<Rightarrow> length xs | Some j \<Rightarrow> j) xs)"

text \<open>\<^verbatim>\<open>Series.mean()\<close> of a column: \<^verbatim>\<open>NaN\<close> when the column has no row.\<close>

definition mean :: "real list \<Rightarrow> num" where
  "mean xs = (if xs = [] then NaN else Num (sum_list xs / real (length xs)))"

definition ncols :: "'a list list \<Rightarrow> nat" where
  "ncols m = (case m of [] \<Rightarrow> 0 | r # rs \<Rightarrow> length r)"

text \<open>\<^verbatim>\<open>diff_matrix.iloc[r0:r1, c0:c1].mean().to_numpy()\<close>: one mean per column of the block,
  taken over the rows of the block. The matrix is the list of its rows.\<close>

definition iloc_mean ::
  "real list list \<Rightarrow> nat option \<times> nat option \<Rightarrow> nat option \<times> nat option \<Rightarrow> num list" where
  "iloc_mean diff_matrix rs cs =
     (let rows = py_slice (fst rs) (snd rs) diff_matrix
      in map (\<lambda>j. mean (map (\<lambda>r. r ! j) rows))
           (py_slice (fst cs) (snd cs) [0..<ncols diff_matrix]))"

text \<open>The state of the loop of \<^verbatim>\<open>calculate_intensity\<close>. The two corrected coordinates of
  the next small TAD live on from one round to the next; before the first assignment
  they are unbound (outer \<open>None\<close>). Once bound, each holds what \<open>find_coords\<close> gave.\<close>

record ci_state =
  square_intensity :: "num list"
  hill_intensity :: "num list"
  start_2_corrected :: "nat option option"
  end_2_corrected :: "nat option option"

text \<open>One round per small TAD. \<^verbatim>\<open>x + 1\<close> with \<^verbatim>\<open>x = None\<close> raises \<^verbatim>\<open>TypeError\<close>; a slice
  bound \<^verbatim>\<open>None\<close> alone raises nothing: it is an open bound.\<close>

fun calculate_intensity_loop ::
  "real list list \<Rightarrow> (real \<times> real) list \<Rightarrow> (real \<times> real) list \<Rightarrow> nat \<Rightarrow> (real \<times> real) list
     \<Rightarrow> ci_state \<Rightarrow> error + ci_state" where
  "calculate_intensity_loop diff_matrix small_tads_coords coords tad_id [] st = Inr st"
| "calculate_intensity_loop diff_matrix small_tads_coords coords tad_id (small_tad # rest) st =
     (if tad_id = length small_tads_coords - 1 then
        (case (start_2_corrected st, end_2_corrected st) of
           (Some s2, Some (Some e2)) \<Rightarrow>
             calculate_intensity_loop diff_matrix small_tads_coords coords (Suc tad_id) rest
               (st\<lparr>hill_intensity := hill_intensity st
                      @ iloc_mean diff_matrix (s2, Some (e2 + 1)) (s2, Some (e2 + 1))\<rparr>)
         | (Some s2, Some None) \<Rightarrow> Inl TypeError
         | _ \<Rightarrow> Inl UnboundLocalError)
      else
        (let start1 = fst small_tad; end1 = snd small_tad;
             start2 = fst (small_tads_coords ! (tad_id + 1));
             end2 = snd (small_tads_coords ! (tad_id + 1));
             start_1_corrected = find_coords start1 coords;
             end_1_corrected = find_coords end1 coords;
             s2c = find_coords start2 coords;
             e2c = find_coords end2 coords
         in case (s2c, e2c, end_1_corrected) of
              (Some s2, Some e2, Some e1) \<Rightarrow>
                calculate_intensity_loop diff_matrix small_tads_coords coords (Suc tad_id) rest
                  (st\<lparr>square_intensity := square_intensity st
                         @ iloc_mean diff_matrix (start_1_corrected, end_1_corrected)
                             (Some (s2 + 1), Some (e2 + 1)),
                       hill_intensity := hill_intensity st
                         @ iloc_mean diff_matrix (start_1_corrected, Some (e1 + 1))
                             (start_1_corrected, Some (e1 + 1)),
                       start_2_corrected := Some s2c,
                       end_2_corrected := Some e2c\<rparr>)
            | _ \<Rightarrow> Inl TypeError))"

definition calculate_intensity ::
  "real list list \<Rightarrow> (real \<times> real) list \<Rightarrow> (real \<times> real) list \<Rightarrow> mwu \<Rightarrow> error + num" where
  "calculate_intensity diff_matrix small_tads_coords coords mannwhitneyu =
     (case calculate_intensity_loop diff_matrix small_tads_coords coords 0 small_tads_coords
             \<lparr>square_intensity = [], hill_intensity = [],
              start_2_corrected = None, end_2_corrected = None\<rparr> of
        Inl e \<Rightarrow> Inl e
      | Inr st \<Rightarrow> calculate_pvalue mannwhitneyu (square_intensity st) (hill_intensity st))"

text \<open>A cooler file at the chosen resolution, as \<^verbatim>\<open>create_diff_matrix\<close> reads it:
  \<^verbatim>\<open>clr.matrix(balance=False).fetch(region)\<close>, the raw contact counts of the region, and
  \<^verbatim>\<open>clr.bins().fetch(region)\<close>, of which the columns \<^verbatim>\<open>start\<close> and \<^verbatim>\<open>end\<close> are kept.\<close>

record cooler =
  matrix_fetch :: "region \<Rightarrow> error + nat list list"
  bins_fetch :: "region \<Rightarrow> error + (real \<times> real) list"

text \<open>\<^verbatim>\<open>np.log\<close> is the natural logarithm. It has no equation to compute with, so it is
  kept out of evaluation: a logarithm stays as it is written.\<close>

definition np_log :: "real \<Rightarrow> real" where
  "np_log x = ln x"

declare np_log_def [code del]

text \<open>\<^verbatim>\<open>np.log(matrix1 + 1) - np.log(matrix2 + 1)\<close>, cell by cell.\<close>

definition log_diff :: "nat list list \<Rightarrow> nat list list \<Rightarrow> real list list" where
  "log_diff matrix1 matrix2 =
     map2 (\<lambda>r1 r2. map2 (\<lambda>x y. np_log (real x + 1) - np_log (real y + 1)) r1 r2)
       matrix1 matrix2"

text \<open>\<^verbatim>\<open>create_diff_matrix\<close>. Two matrices of different shapes are refused with
  \<^verbatim>\<open>ValueError\<close> (numpy's broadcasting of a one-row operand is left out), and so is a
  matrix that \<^verbatim>\<open>pd.DataFrame(diff_matrix, columns=coords, index=coords)\<close> cannot label.\<close>

definition create_diff_matrix ::
  "main_coords \<Rightarrow> (real \<times> real) list \<Rightarrow> cooler \<Rightarrow> cooler \<Rightarrow> mwu \<Rightarrow> error + num" where
  "create_diff_matrix main_tad_coords small_tads_coords clr_1 clr_2 mannwhitneyu =
     (case find_region main_tad_coords small_tads_coords of
        Inl e \<Rightarrow> Inl e
      | Inr region \<Rightarrow>
     (case matrix_fetch clr_1 region of
        Inl e \<Rightarrow> Inl e
      | Inr matrix1 \<Rightarrow>
     (case matrix_fetch clr_2 region of
        Inl e \<Rightarrow> Inl e
      | Inr matrix2 \<Rightarrow>
     (case bins_fetch clr_1 region of
        Inl e \<Rightarrow> Inl e
      | Inr coords \<Rightarrow>
          if map length matrix1 \<noteq> map length matrix2 then Inl ValueError
          else if map length matrix1 \<noteq> replicate (length coords) (length coords)
          then Inl ValueError
          else calculate_intensity (log_diff matrix1 matrix2) small_tads_coords coords
                 mannwhitneyu))))"

subsection \<open>Scoring the candidate groups\<close>

text \<open>The frame with its \<^verbatim>\<open>pvalue\<close> column: label, row, p-value.\<close>

type_synonym annotated = "(int \<times> row \<times> num) list"

text \<open>The locals of \<^verbatim>\<open>choose_region\<close> and the frame it writes to. \<^verbatim>\<open>main_tad_coords\<close> is
  unbound (\<open>None\<close>) until its first assignment. The last field is not in the source: it
  lists the calls of \<^verbatim>\<open>create_diff_matrix\<close> (each reads both cooler files), in order, by
  their first two arguments.\<close>

record cr_state =
  main_tad_coords :: "main_coords option"
  small_tads_coords :: "(real \<times> real) list"
  big_tad_indicies :: "int list"
  df_with_value :: annotated
  scored :: "(main_coords \<times> (real \<times> real) list) list"

text \<open>\<^verbatim>\<open>row[['chrom', 'start_tad1', 'end_tad1']].to_list()\<close> and
  \<^verbatim>\<open>row[['start_tad2', 'end_tad2']].to_list()\<close>.\<close>

definition main_of :: "row \<Rightarrow> main_coords" where
  "main_of r = (chrom r, start_tad1 r, end_tad1 r)"

definition small_of :: "row \<Rightarrow> real \<times> real" where
  "small_of r = (start_tad2 r, end_tad2 r)"

text \<open>\<^verbatim>\<open>df_with_value.loc[first:last, 'pvalue'] = pvalue\<close>: a label slice takes both ends
  in; on the increasing index that the pipeline builds (a range index, filtered or
  fresh) it is the rows whose label lies between the two.\<close>

definition loc_set_pvalue :: "int \<Rightarrow> int \<Rightarrow> num \<Rightarrow> annotated \<Rightarrow> annotated" where
  "loc_set_pvalue first_label last_label v df =
     map (\<lambda>(i, r, p). if first_label \<le> i \<and> i \<le> last_label then (i, r, v) else (i, r, p)) df"

text \<open>The four lines that score the rows gathered so far:
  \<^verbatim>\<open>pvalue = create_diff_matrix(...)\<close>, \<^verbatim>\<open>first = big_tad_indicies[0]\<close>,
  \<^verbatim>\<open>last = big_tad_indicies[-1]\<close> and the assignment through \<^verbatim>\<open>.loc\<close>.\<close>

definition score_rows ::
  "(main_coords \<Rightarrow> (real \<times> real) list \<Rightarrow> error + num) \<Rightarrow> main_coords \<Rightarrow> cr_state
     \<Rightarrow> error + cr_state" where
  "score_rows score m st =
     (case score m (small_tads_coords st) of
        Inl e \<Rightarrow> Inl e
      | Inr v \<Rightarrow>
          if big_tad_indicies st = [] then Inl IndexError
          else Inr (st\<lparr>df_with_value :=
                           loc_set_pvalue (hd (big_tad_indicies st)) (last (big_tad_indicies st)) v
                             (df_with_value st),
                        scored := scored st @ [(m, small_tads_coords st)]\<rparr>))"

text \<open>One round of \<^verbatim>\<open>for index, row in df.iterrows()\<close> per row; \<open>last_label\<close> is
  \<^verbatim>\<open>df.index[-1]\<close>. Reading \<^verbatim>\<open>main_tad_coords\<close> while it is unbound raises
  \<^verbatim>\<open>UnboundLocalError\<close>.\<close>

fun choose_region_loop ::
  "(main_coords \<Rightarrow> (real \<times> real) list \<Rightarrow> error + num) \<Rightarrow> int \<Rightarrow> frame \<Rightarrow> cr_state
     \<Rightarrow> error + cr_state" where
  "choose_region_loop score last_label [] st = Inr st"
| "choose_region_loop score last_label ((index, r) # rest) st =
     (let coords = main_of r;
          st1 = (if index = 0 then st\<lparr>main_tad_coords := Some coords\<rparr> else st)
      in case main_tad_coords st1 of
           None \<Rightarrow> Inl UnboundLocalError
         | Some m \<Rightarrow>
             (case (if m \<noteq> coords
                    then (case score_rows score m st1 of
                            Inl e \<Rightarrow> Inl e
                          | Inr st' \<Rightarrow>
                              Inr (st'\<lparr>main_tad_coords := Some coords,
                                       small_tads_coords := [],
                                       big_tad_indicies := []\<rparr>))
                    else Inr st1) of
                Inl e \<Rightarrow> Inl e
              | Inr st2 \<Rightarrow>
                  (let st3 = st2\<lparr>big_tad_indicies := big_tad_indicies st2 @ [index],
                                 small_tads_coords :=
                                   small_tads_coords st2 @ [small_of r]\<rparr>
                   in if index = last_label
                      then (case score_rows score coords st3 of
                              Inl e \<Rightarrow> Inl e
                            | Inr st4 \<Rightarrow> choose_region_loop score last_label rest st4)
                      else choose_region_loop score last_label rest st3)))"

declare choose_region_loop.simps(2) [simp del]

text \<open>\<^verbatim>\<open>df_with_value['pvalue'] = np.nan\<close>.\<close>

definition unscored :: "frame \<Rightarrow> annotated" where
  "unscored df = map (\<lambda>(i, r). (i, r, NaN)) df"

text \<open>\<^verbatim>\<open>choose_region\<close>. The result is the annotated frame together with the list of
  scoring calls. (\<^verbatim>\<open>df.index[-1]\<close> is read inside the loop only, so never on an empty
  frame.)\<close>

definition choose_region ::
  "frame \<Rightarrow> cooler \<Rightarrow> cooler \<Rightarrow> mwu
     \<Rightarrow> error + (annotated \<times> (main_coords \<times> (real \<times> real) list) list)" where
  "choose_region df clr_1 clr_2 mannwhitneyu =
     (case choose_region_loop (\<lambda>m s. create_diff_matrix m s clr_1 clr_2 mannwhitneyu)
             (fst (last df)) df
             \<lparr>main_tad_coords = None, small_tads_coords = [], big_tad_indicies = [],
              df_with_value = unscored df, scored = []\<rparr> of
        Inl e \<Rightarrow> Inl e
      | Inr st \<Rightarrow> Inr (df_with_value st, scored st))"

subsection \<open>Output\<close>

definition demodify_tads_map :: "annotated \<Rightarrow> int \<Rightarrow> annotated" where
  "demodify_tads_map tads_region_intersect binsize =
     map (\<lambda>(i, r, p). (i, demodify_row r binsize, p)) tads_region_intersect"

text \<open>A row of the saved table: the columns after \<^verbatim>\<open>rename\<close> and
  \<^verbatim>\<open>drop(columns=['size_tad1', 'size_tad2'])\<close>.\<close>

record out_row =
  out_chrom :: string
  start_1 :: real
  end_1 :: real
  start_2 :: real
  end_2 :: real
  pvalue :: num

definition rename_row :: "string \<Rightarrow> row \<Rightarrow> num \<Rightarrow> out_row" where
  "rename_row opt r p =
     (if opt = ''merge''
      then \<lparr>out_chrom = chrom r, start_1 = start_tad2 r, end_1 = end_tad2 r,
            start_2 = start_tad1 r, end_2 = end_tad1 r, pvalue = p\<rparr>
      else \<lparr>out_chrom = chrom r, start_1 = start_tad1 r, end_1 = end_tad1 r,
            start_2 = start_tad2 r, end_2 = end_tad2 r, pvalue = p\<rparr>)"

text \<open>\<^verbatim>\<open>save_frame\<close>. \<^verbatim>\<open>demodify_tads_map\<close> assigns to the columns of the frame it is given,
  which is the caller's \<^verbatim>\<open>final_table\<close>; \<^verbatim>\<open>rename\<close> and \<^verbatim>\<open>drop\<close> make copies. So the
  function hands back the caller's frame as it now is, and the file it wrote: its name
  (under \<^verbatim>\<open>path_save\<close>) and its rows.\<close>

definition save_frame ::
  "string \<Rightarrow> annotated \<Rightarrow> int \<Rightarrow> annotated \<times> string \<times> (int \<times> out_row) list" where
  "save_frame opt saving_dataframe binsize =
     (let d = demodify_tads_map saving_dataframe binsize
      in (d, opt @ ''_coords.csv'', map (\<lambda>(i, r, p). (i, rename_row opt r p)) d))"

subsection \<open>Pipeline orchestrator\<close>

datatype io = Warning string | ToCsv string "(int \<times> out_row) list"

text \<open>The loop over the common chromosomes. \<^verbatim>\<open>pd.DataFrame()\<close>, a frame without columns,
  is \<open>None\<close>; \<^verbatim>\<open>.empty\<close> holds for it and for a frame without rows. \<^verbatim>\<open>find_split\<close> is
  called with its defaults, \<^verbatim>\<open>binsize=100_000\<close> and \<^verbatim>\<open>length_flexibility=1.1\<close>.
  \<^verbatim>\<open>pd.concat(..., ignore_index=True)\<close> gives the rows a fresh range index.\<close>

fun collect_splits :: "tad list \<Rightarrow> tad list \<Rightarrow> string list \<Rightarrow> frame option \<Rightarrow> frame option" where
  "collect_splits tad1 tad2 [] tad_split_table = tad_split_table"
| "collect_splits tad1 tad2 (c # cs) tad_split_table =
     (let (tad1_chr_coords, tad2_chr_coords) = get_chroms_coords tad1 tad2 c;
          found = find_split tad1_chr_coords tad2_chr_coords 100000 (11 / 10)
      in collect_splits tad1 tad2 cs
           (case tad_split_table of
              None \<Rightarrow> Some found
            | Some [] \<Rightarrow> Some found
            | Some (x # xs) \<Rightarrow> Some (range_index 0 (map snd (x # xs) @ map snd found))))"

text \<open>One round of \<^verbatim>\<open>for option in ['split', 'merge']\<close>, the tables already swapped for
  \<^verbatim>\<open>'merge'\<close>. With no common chromosome the frame still has no column when
  \<^verbatim>\<open>demodify_tads_map\<close> reads \<^verbatim>\<open>start_tad1\<close>: \<^verbatim>\<open>KeyError\<close>. The count is taken from
  \<^verbatim>\<open>final_table\<close> after \<^verbatim>\<open>save_frame\<close> has changed it.\<close>

definition detect_option ::
  "cooler \<Rightarrow> cooler \<Rightarrow> mwu \<Rightarrow> int \<Rightarrow> string \<Rightarrow> tad list \<Rightarrow> tad list \<Rightarrow> io list \<times> (error + nat)" where
  "detect_option clr_1 clr_2 mannwhitneyu binsize opt tad1 tad2 =
     (let (warned, tad_chrom_list) = get_chrom_list tad1 tad2;
          warns = (if warned then [Warning ''Different numbers of chromosomes were detected!'']
                   else [])
      in case collect_splits tad1 tad2 tad_chrom_list None of
           None \<Rightarrow> (warns, Inl KeyError)
         | Some tad_split_table \<Rightarrow>
             (case choose_region tad_split_table clr_1 clr_2 mannwhitneyu of
                Inl e \<Rightarrow> (warns, Inl e)
              | Inr (final_table, calls) \<Rightarrow>
                  (let (final_table', name, saved) = save_frame opt final_table binsize
                   in (warns @ [ToCsv name saved],
                       Inr (length (unique
                              (map (\<lambda>(i, r, p). (start_tad1 r, end_tad1 r)) final_table')))))))"

text \<open>The body of \<^verbatim>\<open>main_split_merge_detection\<close>, on the loaded tables and the opened
  cooler files. An exception in the first round ends the function.\<close>

definition main_split_merge_detection_func ::
  "cooler \<times> cooler \<times> mwu \<times> int \<times> tad list \<times> tad list \<Rightarrow> io list \<times> (error + nat \<times> nat)" where
  "main_split_merge_detection_func args =
     (case args of (clr_1, clr_2, mannwhitneyu, binsize, tad1, tad2) \<Rightarrow>
       (case detect_option clr_1 clr_2 mannwhitneyu binsize ''split'' tad1 tad2 of
          (io1, Inl e) \<Rightarrow> (io1, Inl e)
        | (io1, Inr n_split) \<Rightarrow>
            (case detect_option clr_1 clr_2 mannwhitneyu binsize ''merge'' tad2 tad1 of
               (io2, Inl e) \<Rightarrow> (io1 @ io2, Inl e)
             | (io2, Inr n_merge) \<Rightarrow> (io1 @ io2, Inr (n_split, n_merge)))))"

subsection \<open>The decorator\<close>

definition FUNC_NAMES :: "(string \<times> string \<times> string) list" where
  "FUNC_NAMES =
     [(''count_tads_change_intensity'',
         ''Searching changes in the intensity of TADs...'',
         ''The number of TADs with a changed intensity: ''),
      (''main_split_merge_detection'',
         ''Searching splits and merges in TADs...'',
         ''The number of splits|merges: '')]"

datatype 'r console = Stderr string | StderrTraceback error | Stdout string 'r

text \<open>\<^verbatim>\<open>wrapper_print(func)\<close> applied to arguments. The decorated function is given as the
  map from its arguments to what it did and how it ended. The first message is built
  before the \<^verbatim>\<open>try\<close>, so a name missing from \<^verbatim>\<open>FUNC_NAMES\<close> raises \<^verbatim>\<open>KeyError\<close>. The inner
  \<^verbatim>\<open>wrapper\<close> has no \<^verbatim>\<open>return\<close>: whatever \<^verbatim>\<open>func\<close> returned or raised, the call evaluates to
  \<^verbatim>\<open>None\<close>, the last component. (Carriage returns and padding of the messages are left
  out.)\<close>

definition wrapper_print ::
  "string \<Rightarrow> ('a \<Rightarrow> 'e list \<times> (error + 'r)) \<Rightarrow> 'a
     \<Rightarrow> error + ('e list \<times> 'r console list \<times> 'r option)" where
  "wrapper_print func_name func args =
     (case map_of FUNC_NAMES func_name of
        None \<Rightarrow> Inl KeyError
      | Some (before, after) \<Rightarrow>
          (case func args of
             (eff, Inr result) \<Rightarrow>
               Inr (eff, [Stderr before, Stderr ''Completed successfully!'', Stdout after result],
                    None)
           | (eff, Inl e) \<Rightarrow> Inr (eff, [Stderr before, StderrTraceback e], None)))"

text \<open>What the name \<^verbatim>\<open>main_split_merge_detection\<close> denotes after the \<^verbatim>\<open>@wrapper_print\<close>
  line.\<close>

definition main_split_merge_detection ::
  "cooler \<times> cooler \<times> mwu \<times> int \<times> tad list \<times> tad list
     \<Rightarrow> error + (io list \<times> (nat \<times> nat) console list \<times> (nat \<times> nat) option)" where
  "main_split_merge_detection args =
     wrapper_print ''main_split_merge_detection'' main_split_merge_detection_func args"

subsection \<open>The scan read by runs\<close>

text \<open>What follows is not in the source: it is the vocabulary in which the scan of
  \<^verbatim>\<open>choose_region\<close> is described. The main TADs and the small TADs of the rows of a frame;
  a frame with one p-value on all its rows; an annotated frame without its p-values.\<close>

definition mains :: "frame \<Rightarrow> main_coords list" where
  "mains df = map (\<lambda>x. main_of (snd x)) df"

definition smalls :: "frame \<Rightarrow> (real \<times> real) list" where
  "smalls df = map (\<lambda>x. small_of (snd x)) df"

definition with_pvalue :: "num \<Rightarrow> frame \<Rightarrow> annotated" where
  "with_pvalue v df = map (\<lambda>(i, r). (i, r, v)) df"

definition strip :: "annotated \<Rightarrow> frame" where
  "strip out = map (\<lambda>(i, r, p). (i, r)) out"

text \<open>Scoring by runs: \<open>cur\<close> is the run of rows gathered so far (not empty), all of one
  main TAD. A row of the same main TAD joins the run; another one ends it: the run is
  scored, once, and its p-value goes to all its rows. The result is the annotated rows
  and the scoring calls made, in order.\<close>

fun score_runs ::
  "(main_coords \<Rightarrow> (real \<times> real) list \<Rightarrow> error + num) \<Rightarrow> frame \<Rightarrow> frame
     \<Rightarrow> error + (annotated \<times> (main_coords \<times> (real \<times> real) list) list)" where
  "score_runs score cur [] =
     (case score (main_of (snd (hd cur))) (smalls cur) of
        Inl e \<Rightarrow> Inl e
      | Inr v \<Rightarrow> Inr (with_pvalue v cur, [(main_of (snd (hd cur)), smalls cur)]))"
| "score_runs score cur (x # rest) =
     (if main_of (snd x) = main_of (snd (hd cur)) then score_runs score (cur @ [x]) rest
      else (case score (main_of (snd (hd cur))) (smalls cur) of
              Inl e \<Rightarrow> Inl e
            | Inr v \<Rightarrow>
                (case score_runs score [x] rest of
                   Inl e \<Rightarrow> Inl e
                 | Inr (out, calls) \<Rightarrow>
                     Inr (with_pvalue v cur @ out,
                          (main_of (snd (hd cur)), smalls cur) # calls))))"

declare score_runs.simps [simp del]

text \<open>What a run of the loop leaves behind, and a result put behind rows and calls that
  came before it.\<close>

definition outcome ::
  "error + cr_state \<Rightarrow> error + (annotated \<times> (main_coords \<times> (real \<times> real) list) list)" where
  "outcome res = (case res of Inl e \<Rightarrow> Inl e | Inr st \<Rightarrow> Inr (df_with_value st, scored st))"

definition after ::
  "annotated \<Rightarrow> (main_coords \<times> (real \<times> real) list) list
     \<Rightarrow> error + (annotated \<times> (main_coords \<times> (real \<times> real) list) list)
     \<Rightarrow> error + (annotated \<times> (main_coords \<times> (real \<times> real) list) list)" where
  "after pre calls0 res =
     (case res of Inl e \<Rightarrow> Inl e | Inr (out, calls) \<Rightarrow> Inr (pre @ out, calls0 @ calls))"

text \<open>The rows of every group stand together: once the rows of a main TAD have ended,
  that main TAD does not come again.\<close>

fun consecutive_groups :: "'k list \<Rightarrow> bool" where
  "consecutive_groups [] = True"
| "consecutive_groups (k # ks) =
     (k \<notin> set (dropWhile (\<lambda>x. x = k) ks) \<and> consecutive_groups ks)"

text \<open>The small TADs of all rows of one main TAD, in row order.\<close>

definition group_smalls :: "frame \<Rightarrow> main_coords \<Rightarrow> (real \<times> real) list" where
  "group_smalls df m = map small_of (filter (\<lambda>r. main_of r = m) (map snd df))"

text \<open>No two main TADs of a table share their start and differ otherwise.\<close>

definition start_fixes_main :: "tad list \<Rightarrow> bool" where
  "start_fixes_main tads =
     (\<forall>a \<in> set tads. \<forall>a' \<in> set tads.
        tad_start a = tad_start a' \<longrightarrow> tad_chrom a = tad_chrom a' \<and> tad_end a = tad_end a')"

subsection \<open>Inputs for the worked cases\<close>

text \<open>Seven bins of width 100000 from 800000 on, a cooler file with no contact in them,
  and a provider that answers \<open>1 / (1 + n)\<close> for a hill sample of \<open>n\<close> values: a stand-in
  whose answer tells which rows were scored together.\<close>

definition bins_800k :: "(real \<times> real) list" where
  "bins_800k =
     [(800000, 900000), (900000, 1000000), (1000000, 1100000), (1100000, 1200000),
      (1200000, 1300000), (1300000, 1400000), (1400000, 1500000)]"

definition clr_blank :: cooler where
  "clr_blank =
     \<lparr>matrix_fetch = (\<lambda>region. Inr (replicate 7 (replicate 7 0))),
      bins_fetch = (\<lambda>region. Inr bins_800k)\<rparr>"

definition mwu_by_size :: mwu where
  "mwu_by_size square hill = Inr (Num 0, Num (1 / (1 + real (length hill))))"

text \<open>A provider that answers an empty sample with \<^verbatim>\<open>NaN\<close> and no exception, as newer SciPy
  releases do (they warn and return \<^verbatim>\<open>NaN\<close>; older ones raise \<^verbatim>\<open>ValueError\<close>); other
  samples are not asked of it.\<close>

definition mwu_nan_on_empty :: mwu where
  "mwu_nan_on_empty square hill =
     (if square = [] \<or> hill = [] then Inr (NaN, NaN)
      else Inl (ExternalError ''not modelled''))"

definition chr1_tad :: "real \<Rightarrow> real \<Rightarrow> tad" where
  "chr1_tad s e = \<lparr>tad_chrom = ''chr1'', tad_start = s, tad_end = e\<rparr>"

text \<open>The candidate frame of one main TAD split in two, and the candidate frame of a first
  table that lists that main TAD three times, with another main TAD after the first
  listing.\<close>

definition split_in_two :: frame where
  "split_in_two =
     find_split [chr1_tad 1000000 1300000]
       [chr1_tad 1000000 1140000, chr1_tad 1150000 1300000] 100000 (11 / 10)"

definition split_listed_thrice :: frame where
  "split_listed_thrice =
     find_split
       [chr1_tad 1000000 1300000, chr1_tad 1000000 1200000,
        chr1_tad 1000000 1300000, chr1_tad 1000000 1300000]
       [chr1_tad 1000000 1050000, chr1_tad 1100000 1150000] 100000 (11 / 10)"

section \<open>Properties\<close>

subsection \<open>Auxiliary facts\<close>

lemma unique_set [simp]: "set (unique xs) = set xs"
  by (induction xs rule: unique.induct) auto

lemma unique_distinct [simp]: "distinct (unique xs)"
  by (induction xs rule: unique.induct) auto

lemma unique_length_card: "length (unique xs) = card (set xs)"
  using distinct_card [OF unique_distinct, of xs] by simp

subsection \<open>Coordinate normalizer\<close>


text \<open>C5, as the spec words it, fails: de-normalization does not subtract from the start.
  The search region of the TAD from 0 to 300 at bin size 100 starts at \<open>-150\<close>; the
  claim would move it to \<open>-300\<close>, the code moves it back to 0.\<close>

theorem demodify_subtracts_counterexample:
  "\<not> (start_tad1 (demodify_row
          \<lparr>chrom = ''chr1'', start_tad1 = - 150, end_tad1 = 450, size_tad1 = 330,
           start_tad2 = 0, end_tad2 = 140, size_tad2 = 140\<rparr> 100) = - 150 - 3 / 2 * 100)"
  by (simp add: demodify_row_def Let_def BINSIZE_COEF_def)

text \<open>C5, amended. De-normalization adds \<open>1.5 * binsize\<close> to \<^verbatim>\<open>start_tad1\<close>, subtracts it
  from \<^verbatim>\<open>end_tad1\<close> and then sets \<^verbatim>\<open>size_tad1\<close> to the difference of the two new
  coordinates; \<^verbatim>\<open>save_frame\<close> does this to every row of the frame it is given.\<close>

theorem demodify_adds_to_start:
  "start_tad1 (demodify_row r binsize) = start_tad1 r + 3 / 2 * of_int binsize \<and>
   end_tad1 (demodify_row r binsize) = end_tad1 r - 3 / 2 * of_int binsize \<and>
   size_tad1 (demodify_row r binsize) =
     end_tad1 (demodify_row r binsize) - start_tad1 (demodify_row r binsize) \<and>
   fst (save_frame opt df binsize) = map (\<lambda>(i, r, p). (i, demodify_row r binsize, p)) df"
  by (simp add: demodify_row_def Let_def BINSIZE_COEF_def save_frame_def demodify_tads_map_def)

subsection \<open>Chromosomes of the two tables\<close>

text \<open>C9, as the spec words it, fails: the first table holds chr1 and chr2, the second
  chr1 and chr3. The sets differ, their sizes do not, and no warning is given.\<close>

theorem get_chrom_list_warning_counterexample:
  "\<not> (set (map tad_chrom [chr1_tad 0 100, \<lparr>tad_chrom = ''chr2'', tad_start = 0, tad_end = 100\<rparr>])
        \<noteq> set (map tad_chrom [chr1_tad 0 100, \<lparr>tad_chrom = ''chr3'', tad_start = 0, tad_end = 100\<rparr>])
       \<longrightarrow> fst (get_chrom_list
                 [chr1_tad 0 100, \<lparr>tad_chrom = ''chr2'', tad_start = 0, tad_end = 100\<rparr>]
                 [chr1_tad 0 100, \<lparr>tad_chrom = ''chr3'', tad_start = 0, tad_end = 100\<rparr>]))"
  by code_simp

lemma get_chrom_list_fst:
  "fst (get_chrom_list tad1 tad2) = (card (tad_chrom ` set tad1) \<noteq> card (tad_chrom ` set tad2))"
  by (simp add: get_chrom_list_def Let_def unique_length_card)

text \<open>What one round of the pipeline does, in order: the warning, if \<^verbatim>\<open>get_chrom_list\<close>
  gave one, and then nothing but the table it writes.\<close>

lemma detect_option_effects:
  "\<exists>rest. fst (detect_option clr_1 clr_2 mwu binsize opt tad1 tad2) =
     (if fst (get_chrom_list tad1 tad2)
      then [Warning ''Different numbers of chromosomes were detected!''] else []) @ rest \<and>
     (\<forall>e \<in> set rest. \<exists>name saved. e = ToCsv name saved)"
  by (cases "get_chrom_list tad1 tad2")
    (auto simp: detect_option_def Let_def save_frame_def split: option.splits sum.splits)

lemma detect_option_warns:
  "Warning ''Different numbers of chromosomes were detected!''
     \<in> set (fst (detect_option clr_1 clr_2 mwu binsize opt tad1 tad2))
   \<longleftrightarrow> card (tad_chrom ` set tad1) \<noteq> card (tad_chrom ` set tad2)"
proof -
  from detect_option_effects [of clr_1 clr_2 mwu binsize opt tad1 tad2] obtain rest where
    eff: "fst (detect_option clr_1 clr_2 mwu binsize opt tad1 tad2) =
     (if fst (get_chrom_list tad1 tad2)
      then [Warning ''Different numbers of chromosomes were detected!''] else []) @ rest"
    and rest: "\<forall>e \<in> set rest. \<exists>name saved. e = ToCsv name saved"
    by blast
  from rest have "Warning ''Different numbers of chromosomes were detected!'' \<notin> set rest"
    by auto
  then show ?thesis
    unfolding eff get_chrom_list_fst by auto
qed

text \<open>C9, amended. The warning is given exactly when the two tables differ in the number
  of their chromosomes, in \<^verbatim>\<open>get_chrom_list\<close> and so in a round of the pipeline. With or
  without it, the list handed on is the chromosomes of the first table, once each in
  order of first appearance, that the second table has too: the intersection of the two
  sets.\<close>

theorem get_chrom_list_warns_on_count:
  "fst (get_chrom_list tad1 tad2)
     = (card (tad_chrom ` set tad1) \<noteq> card (tad_chrom ` set tad2)) \<and>
   (Warning ''Different numbers of chromosomes were detected!''
      \<in> set (fst (detect_option clr_1 clr_2 mwu binsize opt tad1 tad2)))
     = (card (tad_chrom ` set tad1) \<noteq> card (tad_chrom ` set tad2)) \<and>
   snd (get_chrom_list tad1 tad2)
     = filter (\<lambda>c. c \<in> tad_chrom ` set tad2) (unique (map tad_chrom tad1)) \<and>
   set (snd (get_chrom_list tad1 tad2)) = tad_chrom ` set tad1 \<inter> tad_chrom ` set tad2 \<and>
   distinct (snd (get_chrom_list tad1 tad2))"
proof -
  have "snd (get_chrom_list tad1 tad2)
     = filter (\<lambda>c. c \<in> tad_chrom ` set tad2) (unique (map tad_chrom tad1))"
    by (simp add: get_chrom_list_def Let_def)
  moreover have "set (snd (get_chrom_list tad1 tad2)) = tad_chrom ` set tad1 \<inter> tad_chrom ` set tad2"
    by (auto simp: get_chrom_list_def Let_def)
  moreover have "distinct (snd (get_chrom_list tad1 tad2))"
    by (simp add: get_chrom_list_def Let_def)
  ultimately show ?thesis
    using get_chrom_list_fst [of tad1 tad2]
      detect_option_warns [of clr_1 clr_2 mwu binsize opt tad1 tad2]
    by (intro conjI)
qed

subsection \<open>Bin lookup\<close>

lemma find_coords_from_Some:
  "find_coords_from n position coords = Some i \<Longrightarrow>
     n \<le> i \<and> i - n < length coords \<and>
     fst (coords ! (i - n)) \<le> position \<and> position \<le> snd (coords ! (i - n)) \<and>
     (\<forall>j < i - n. \<not> (fst (coords ! j) \<le> position \<and> position \<le> snd (coords ! j)))"
proof (induction n position coords rule: find_coords_from.induct)
  case (1 i position)
  then show ?case by simp
next
  case (2 n position first second coords)
  show ?case
  proof (cases "first \<le> position \<and> position \<le> second")
    case True
    with "2.prems" show ?thesis by simp
  next
    case False
    with "2.prems" have rec: "find_coords_from (Suc n) position coords = Some i"
      by simp
    from "2.IH" [OF False rec] have ih:
      "Suc n \<le> i" "i - Suc n < length coords"
      "fst (coords ! (i - Suc n)) \<le> position" "position \<le> snd (coords ! (i - Suc n))"
      "\<forall>j < i - Suc n. \<not> (fst (coords ! j) \<le> position \<and> position \<le> snd (coords ! j))"
      by simp_all
    from ih(1) have eq: "i - n = Suc (i - Suc n)" by simp
    have "\<not> (fst (((first, second) # coords) ! j) \<le> position
              \<and> position \<le> snd (((first, second) # coords) ! j))" if "j < i - n" for j
      using that False ih(5) eq by (cases j) auto
    with ih eq show ?thesis by simp
  qed
qed

lemma find_coords_from_None:
  "find_coords_from n position coords = None \<longleftrightarrow>
     (\<forall>c \<in> set coords. \<not> (fst c \<le> position \<and> position \<le> snd c))"
  by (induction n position coords rule: find_coords_from.induct) auto

text \<open>When some interval holds the position, the lookup returns the index of the first
  such interval.\<close>

lemma find_coords_first:
  assumes "find_coords position coords = Some i"
  shows "i < length coords \<and> fst (coords ! i) \<le> position \<and> position \<le> snd (coords ! i) \<and>
         (\<forall>j < i. \<not> (fst (coords ! j) \<le> position \<and> position \<le> snd (coords ! j)))"
  using find_coords_from_Some [of 0 position coords i] assms by (simp add: find_coords_def)

lemma find_coords_found:
  assumes "c \<in> set coords" "fst c \<le> position" "position \<le> snd c"
  shows "\<exists>i. find_coords position coords = Some i"
proof (cases "find_coords position coords")
  case None
  with assms show ?thesis
    by (auto simp: find_coords_def find_coords_from_None)
next
  case (Some i)
  then show ?thesis by simp
qed

text \<open>C7 at the failing input: no interval of \<open>[(10, 20)]\<close> holds the position 5, and the
  lookup raises nothing: it returns \<^verbatim>\<open>None\<close>. The second part shows where that value goes:
  with the first small TAD starting at 5, outside the bins, \<^verbatim>\<open>calculate_intensity\<close> takes
  the \<^verbatim>\<open>None\<close> as the open lower bound of its slices and gathers both samples, up to the
  call of the test.\<close>

theorem find_coords_not_found_is_None:
  "find_coords 5 [(10, 20)] = None \<and>
   calculate_intensity_loop (replicate 3 (replicate 3 0)) [(5, 15), (25, 35)]
       [(10, 20), (20, 30), (30, 40)] 0 [(5, 15), (25, 35)]
       \<lparr>square_intensity = [], hill_intensity = [],
        start_2_corrected = None, end_2_corrected = None\<rparr>
     = Inr \<lparr>square_intensity = [NaN], hill_intensity = [Num 0, Num 0, Num 0],
            start_2_corrected = Some (Some 1), end_2_corrected = Some (Some 2)\<rparr>"
  by code_simp

subsection \<open>Significance scoring\<close>

text \<open>C8, as the spec words it, fails once the provider answers an empty sample with
  \<^verbatim>\<open>NaN\<close>: the second small TAD lies inside one bin, the block between the two TADs has
  no column, the square sample is empty, and scoring returns \<^verbatim>\<open>NaN\<close> as the p-value.\<close>

theorem calculate_intensity_empty_sample_counterexample:
  "calculate_intensity_loop [[1, 2, 3], [4, 5, 6], [7, 8, 9]] [(0, 150), (250, 260)]
       [(0, 100), (100, 200), (200, 300)] 0 [(0, 150), (250, 260)]
       \<lparr>square_intensity = [], hill_intensity = [],
        start_2_corrected = None, end_2_corrected = None\<rparr>
     = Inr \<lparr>square_intensity = [], hill_intensity = [Num (5 / 2), Num (7 / 2), Num 9],
            start_2_corrected = Some (Some 2), end_2_corrected = Some (Some 2)\<rparr> \<and>
   calculate_intensity [[1, 2, 3], [4, 5, 6], [7, 8, 9]] [(0, 150), (250, 260)]
       [(0, 100), (100, 200), (200, 300)] mwu_nan_on_empty = Inr NaN \<and>
   calculate_pvalue mwu_nan_on_empty [] [Num (5 / 2), Num (7 / 2), Num 9] = Inr NaN"
  by code_simp

text \<open>C8, amended. The scoring step has no check of its own for an empty sample: for all
  samples, empty or not, \<^verbatim>\<open>calculate_pvalue\<close> fails exactly when the test provider fails,
  with the provider's error, and otherwise returns the provider's p-value as it is,
  \<^verbatim>\<open>NaN\<close> included.\<close>

theorem calculate_pvalue_is_provider:
  "(calculate_pvalue mannwhitneyu square hill = Inl e \<longleftrightarrow> mannwhitneyu square hill = Inl e) \<and>
   (calculate_pvalue mannwhitneyu square hill = Inr p
      \<longleftrightarrow> (\<exists>stat. mannwhitneyu square hill = Inr (stat, p)))"
  by (auto simp: calculate_pvalue_def split: sum.splits)

subsection \<open>Interval matcher\<close>

text \<open>What the duplicate check does give: in the output of \<^verbatim>\<open>find_split\<close> every row shares
  its \<^verbatim>\<open>start_tad1\<close> with another row.\<close>

lemma filter_same_start:
  assumes "\<And>i r. start_tad1 r = s \<Longrightarrow> P (i, r) = Q s"
  shows "filter (\<lambda>(i, r). start_tad1 r = s) (filter P df) =
         (if Q s then filter (\<lambda>(i, r). start_tad1 r = s) df else [])"
  using assms by (induction df) auto

lemma find_split_start_twice:
  assumes "(i, r) \<in> set (find_split tad1 tad2 binsize length_flexibility)"
  shows "2 \<le> length (filter (\<lambda>(j, r'). start_tad1 r' = start_tad1 r)
                        (find_split tad1 tad2 binsize length_flexibility))"
proof -
  define contained where "contained =
     filter (\<lambda>(i, r). start_tad1 r \<le> start_tad2 r \<and> end_tad1 r \<ge> end_tad2 r \<and> size_tad1 r \<ge> size_tad2 r)
       (merge_on_chrom (modify_tads_map_by_condition tad1 binsize length_flexibility)
          (add_size_column tad2))"
  define dup where "dup = filter (\<lambda>(i, r). duplicated_start_tad1 contained r) contained"
  define S where "S = set (map start_tad1 (filter (\<lambda>g. size_tad1 g \<ge> size_tad2 g) (groupby_agg dup)))"
  have fs: "find_split tad1 tad2 binsize length_flexibility
            = filter (\<lambda>(i, r). start_tad1 r \<in> S) dup"
    by (simp add: find_split_def Let_def contained_def dup_def S_def)
  let ?s = "start_tad1 r"
  let ?same = "\<lambda>(j, r'). start_tad1 r' = ?s"
  from assms have inS: "?s \<in> S" and indup: "(i, r) \<in> set dup" by (auto simp: fs)
  from indup have d: "duplicated_start_tad1 contained r" by (auto simp: dup_def)
  have 1: "filter ?same (filter (\<lambda>(i, r). start_tad1 r \<in> S) dup) = filter ?same dup"
    using inS by (subst filter_same_start [where Q = "\<lambda>s. s \<in> S"]) auto
  have 2: "filter ?same dup = filter ?same contained"
    unfolding dup_def using d
    by (subst filter_same_start [where Q = "\<lambda>s. duplicated_start_tad1 contained r"])
      (auto simp: duplicated_start_tad1_def)
  from d show ?thesis
    unfolding fs 1 2 by (simp add: duplicated_start_tad1_def)
qed

text \<open>The rows of the output pair a search region of the first table with a TAD of the
  second.\<close>

lemma range_index_snd [simp]: "map snd (range_index n xs) = xs"
  by (induction xs arbitrary: n) auto

lemma merge_on_chrom_rows:
  assumes "(i, r) \<in> set (merge_on_chrom left right)"
  shows "\<exists>a \<in> set left. \<exists>b \<in> set right. r = merge_row a b"
proof -
  from assms have "r \<in> set (map snd (merge_on_chrom left right))" by force
  then show ?thesis
    unfolding merge_on_chrom_def range_index_snd by auto
qed

lemma find_split_rows:
  assumes "(i, r) \<in> set (find_split tad1 tad2 binsize length_flexibility)"
  shows "\<exists>a \<in> set tad1. \<exists>b \<in> set tad2.
           r = merge_row (modify_tad a binsize length_flexibility) (add_size b)"
proof -
  from assms have "(i, r) \<in> set (merge_on_chrom
      (modify_tads_map_by_condition tad1 binsize length_flexibility) (add_size_column tad2))"
    by (auto simp: find_split_def Let_def)
  from merge_on_chrom_rows [OF this] show ?thesis
    by (auto simp: modify_tads_map_by_condition_def add_size_column_def)
qed

text \<open>Where the start of a main TAD fixes the main TAD, \<^verbatim>\<open>start_tad1\<close> stands for the
  group, and then both group conditions hold in the output: every group has two rows or
  more, and the sizes of its small TADs sum to no more than its adjusted size.\<close>

lemma find_split_same_start:
  assumes H: "start_fixes_main tad1"
    and r: "(i, r) \<in> set (find_split tad1 tad2 binsize length_flexibility)"
    and r': "(j, r') \<in> set (find_split tad1 tad2 binsize length_flexibility)"
  shows "start_tad1 r' = start_tad1 r \<longleftrightarrow> main_of r' = main_of r"
proof -
  from find_split_rows [OF r] obtain a b where a: "a \<in> set tad1"
    and rr: "r = merge_row (modify_tad a binsize length_flexibility) (add_size b)" by blast
  from find_split_rows [OF r'] obtain a' b' where a': "a' \<in> set tad1"
    and rr': "r' = merge_row (modify_tad a' binsize length_flexibility) (add_size b')" by blast
  from H a a' have "tad_start a' = tad_start a \<longrightarrow> tad_chrom a' = tad_chrom a \<and> tad_end a' = tad_end a"
    unfolding start_fixes_main_def by metis
  then show ?thesis
    by (auto simp: rr rr' merge_row_def modify_tad_def main_of_def)
qed

lemma find_split_groups_of_two:
  assumes H: "start_fixes_main tad1"
    and r: "(i, r) \<in> set (find_split tad1 tad2 binsize length_flexibility)"
  shows "2 \<le> length (filter (\<lambda>(j, r'). main_of r' = main_of r)
                        (find_split tad1 tad2 binsize length_flexibility))"
proof -
  have "filter (\<lambda>(j, r'). main_of r' = main_of r) (find_split tad1 tad2 binsize length_flexibility)
      = filter (\<lambda>(j, r'). start_tad1 r' = start_tad1 r) (find_split tad1 tad2 binsize length_flexibility)"
    using find_split_same_start [OF H r] by (intro filter_cong) auto
  with find_split_start_twice [OF r] show ?thesis by simp
qed

lemma merged_same_start:
  assumes H: "start_fixes_main tad1"
    and r: "(i, r) \<in> set (merge_on_chrom
              (modify_tads_map_by_condition tad1 binsize lf) (add_size_column tad2))"
    and r': "(j, r') \<in> set (merge_on_chrom
              (modify_tads_map_by_condition tad1 binsize lf) (add_size_column tad2))"
  shows "(group_key r' = group_key r) = (start_tad1 r' = start_tad1 r)"
proof -
  from merge_on_chrom_rows [OF r] obtain a b where a: "a \<in> set tad1"
    and rr: "r = merge_row (modify_tad a binsize lf) b"
    by (auto simp: modify_tads_map_by_condition_def)
  from merge_on_chrom_rows [OF r'] obtain a' b' where a': "a' \<in> set tad1"
    and rr': "r' = merge_row (modify_tad a' binsize lf) b'"
    by (auto simp: modify_tads_map_by_condition_def)
  from H a a' have "tad_start a' = tad_start a \<longrightarrow> tad_chrom a' = tad_chrom a \<and> tad_end a' = tad_end a"
    unfolding start_fixes_main_def by metis
  then show ?thesis
    by (auto simp: rr rr' merge_row_def modify_tad_def group_key_def)
qed

lemma find_split_aggregate_holds:
  assumes H: "start_fixes_main tad1"
    and r: "(i, r) \<in> set (find_split tad1 tad2 binsize lf)"
  shows "sum_list (map size_tad2 (filter (\<lambda>r'. main_of r' = main_of r)
                                    (map snd (find_split tad1 tad2 binsize lf))))
         \<le> size_tad1 r"
proof -
  define merged where "merged = merge_on_chrom
      (modify_tads_map_by_condition tad1 binsize lf) (add_size_column tad2)"
  define contained where "contained =
     filter (\<lambda>(i, r). start_tad1 r \<le> start_tad2 r \<and> end_tad1 r \<ge> end_tad2 r \<and> size_tad1 r \<ge> size_tad2 r)
       merged"
  define dup where "dup = filter (\<lambda>(i, r). duplicated_start_tad1 contained r) contained"
  define S where "S = set (map start_tad1 (filter (\<lambda>g. size_tad1 g \<ge> size_tad2 g) (groupby_agg dup)))"
  have fs: "find_split tad1 tad2 binsize lf = filter (\<lambda>(i, r). start_tad1 r \<in> S) dup"
    by (simp add: find_split_def Let_def merged_def contained_def dup_def S_def)
  have dup_merged: "x \<in> set dup \<Longrightarrow> x \<in> set merged" for x
    by (auto simp: dup_def contained_def)
  from r have inS: "start_tad1 r \<in> S" and rdup: "(i, r) \<in> set dup" by (auto simp: fs)
  from inS obtain g where g: "g \<in> set (groupby_agg dup)" "size_tad2 g \<le> size_tad1 g"
      "start_tad1 g = start_tad1 r"
    by (auto simp: S_def)
  from g(1) obtain j r'' where r'': "(j, r'') \<in> set dup" and gk: "g = agg_group dup (group_key r'')"
    by (auto simp: groupby_agg_def)
  have g1: "start_tad1 g = start_tad1 r''" and g2: "size_tad1 g = size_tad1 r''"
    and g3: "size_tad2 g = sum_list (map size_tad2
               (filter (\<lambda>x. group_key x = group_key r'') (map snd dup)))"
    by (simp_all add: gk agg_group_def group_key_def Let_def)
  have same: "(group_key x = group_key r) = (start_tad1 x = start_tad1 r)" if "(l, x) \<in> set dup" for l x
    using merged_same_start [OF H, of i r binsize lf tad2 l x] dup_merged [OF rdup] dup_merged [OF that]
    by (simp add: merged_def)
  from same [OF r''] g(3) g1 have k: "group_key r'' = group_key r" by simp
  then have sz: "size_tad1 g = size_tad1 r" using g2 by (simp add: group_key_def)
  have mainsame: "(main_of x = main_of r) = (start_tad1 x = start_tad1 r)" if "(l, x) \<in> set dup" for l x
    using same [OF that] by (auto simp: group_key_def main_of_def)
  have "filter (\<lambda>r'. main_of r' = main_of r) (map snd (filter (\<lambda>(i, r). start_tad1 r \<in> S) dup))
      = filter (\<lambda>x. group_key x = group_key r) (map snd dup)"
    unfolding filter_map filter_filter
    by (intro arg_cong [where f = "map snd"] filter_cong refl)
      (use inS mainsame same in \<open>auto simp: comp_def\<close>)
  with g(2) g3 k sz show ?thesis by (simp add: fs)
qed

text \<open>C3 at the failing input: two main TADs of the first table start at 0 and end at
  300000 and at 500000; the second table has one TAD, from 0 to 100000. Each search
  region is matched to that one TAD only. The duplicate check reads \<^verbatim>\<open>start_tad1\<close>
  alone, finds the value \<open>-150000\<close> twice and keeps both rows: the output has two groups
  of one row each.\<close>

theorem find_split_singleton_groups:
  "find_split [chr1_tad 0 300000, chr1_tad 0 500000] [chr1_tad 0 100000] 100000 (11 / 10) =
     [(0, \<lparr>chrom = ''chr1'', start_tad1 = - 150000, end_tad1 = 450000, size_tad1 = 330000,
           start_tad2 = 0, end_tad2 = 100000, size_tad2 = 100000\<rparr>),
      (1, \<lparr>chrom = ''chr1'', start_tad1 = - 150000, end_tad1 = 650000, size_tad1 = 550000,
           start_tad2 = 0, end_tad2 = 100000, size_tad2 = 100000\<rparr>)]"
  by code_simp

text \<open>C6 at the failing input: the main TAD from 0 to 300000 has the adjusted size 330000
  and is matched to two small TADs of size 200000 each, 400000 in sum. Its group fails
  the aggregate check. The main TAD from 0 to 1000000 shares its start and passes; the
  last filter reads \<^verbatim>\<open>start_tad1\<close> alone, so the rows of the failed group (labels 0
  and 1) stay in the output.\<close>

theorem find_split_keeps_failed_group:
  "find_split [chr1_tad 0 300000, chr1_tad 0 1000000]
       [chr1_tad 0 200000, chr1_tad 200000 400000] 100000 (11 / 10) =
     [(0, \<lparr>chrom = ''chr1'', start_tad1 = - 150000, end_tad1 = 450000, size_tad1 = 330000,
           start_tad2 = 0, end_tad2 = 200000, size_tad2 = 200000\<rparr>),
      (1, \<lparr>chrom = ''chr1'', start_tad1 = - 150000, end_tad1 = 450000, size_tad1 = 330000,
           start_tad2 = 200000, end_tad2 = 400000, size_tad2 = 200000\<rparr>),
      (2, \<lparr>chrom = ''chr1'', start_tad1 = - 150000, end_tad1 = 1150000, size_tad1 = 1100000,
           start_tad2 = 0, end_tad2 = 200000, size_tad2 = 200000\<rparr>),
      (3, \<lparr>chrom = ''chr1'', start_tad1 = - 150000, end_tad1 = 1150000, size_tad1 = 1100000,
           start_tad2 = 200000, end_tad2 = 400000, size_tad2 = 200000\<rparr>)]"
  by code_simp

subsection \<open>Scoring the candidate groups: the loop\<close>

text \<open>The label slice of \<^verbatim>\<open>.loc\<close> on an increasing index: rows before the run and rows
  after it keep their p-values, the rows of the run get the new one.\<close>

lemma mains_simps [simp]:
  "mains [] = []"
  "mains (x # xs) = main_of (snd x) # mains xs"
  "mains (xs @ ys) = mains xs @ mains ys"
  by (simp_all add: mains_def)

lemma mains_Nil [simp]: "mains df = [] \<longleftrightarrow> df = []"
  by (simp add: mains_def)

lemma set_mains [simp]: "set (mains df) = (\<lambda>x. main_of (snd x)) ` set df"
  by (simp add: mains_def)

lemma smalls_simps [simp]:
  "smalls [] = []"
  "smalls (x # xs) = small_of (snd x) # smalls xs"
  "smalls (xs @ ys) = smalls xs @ smalls ys"
  by (simp_all add: smalls_def)

lemma loc_set_below:
  assumes "\<forall>y \<in> set pre. fst y < a"
  shows "loc_set_pvalue a b v pre = pre"
  using assms by (induction pre) (auto simp: loc_set_pvalue_def)

lemma loc_set_above:
  assumes "\<forall>y \<in> set post. b < fst y"
  shows "loc_set_pvalue a b v post = post"
  using assms by (induction post) (auto simp: loc_set_pvalue_def)

lemma loc_set_within:
  assumes "\<forall>y \<in> set cur. a \<le> fst y \<and> fst y \<le> b"
  shows "loc_set_pvalue a b v (unscored cur) = with_pvalue v cur"
  using assms by (induction cur) (auto simp: loc_set_pvalue_def unscored_def with_pvalue_def)

lemma loc_set_append:
  "loc_set_pvalue a b v (xs @ ys) = loc_set_pvalue a b v xs @ loc_set_pvalue a b v ys"
  by (simp add: loc_set_pvalue_def)

lemma sorted_hd_le:
  assumes "sorted_wrt (<) (map fst cur)" "y \<in> set cur"
  shows "fst (hd cur) \<le> fst (y :: int \<times> 'a)"
  using assms by (cases cur) (auto)

lemma sorted_le_last:
  assumes "sorted_wrt (<) (map fst cur)" "y \<in> set cur"
  shows "fst (y :: int \<times> 'a) \<le> fst (last cur)"
  using assms
proof (induction cur)
  case Nil then show ?case by simp
next
  case (Cons c cur)
  show ?case
  proof (cases "cur = []")
    case True
    with Cons.prems show ?thesis by simp
  next
    case False
    then have l: "last cur \<in> set cur" by simp
    from Cons.prems have s: "sorted_wrt (<) (map fst cur)"
      and b: "\<forall>x \<in> set cur. fst c < fst x" by auto
    show ?thesis
    proof (cases "y = c")
      case True
      from b l have "fst c < fst (last cur)" by blast
      with True False show ?thesis by simp
    next
      case ne: False
      with Cons.prems have "y \<in> set cur" by simp
      from Cons.IH [OF s this] False show ?thesis by simp
    qed
  qed
qed

lemma loc_set_run:
  assumes srt: "sorted_wrt (<) (map fst pre @ map fst cur @ map fst post)"
    and ne: "cur \<noteq> []"
  shows "loc_set_pvalue (fst (hd cur)) (fst (last cur)) v (pre @ unscored cur @ unscored post)
         = pre @ with_pvalue v cur @ unscored post"
proof -
  from srt have s1: "sorted_wrt (<) (map fst cur)"
    and lo: "\<forall>x \<in> set pre. \<forall>y \<in> set cur. fst x < fst y"
    and hi: "\<forall>x \<in> set cur. \<forall>y \<in> set post. fst x < fst y"
    by (auto simp: sorted_wrt_append)
  from ne have hdin: "hd cur \<in> set cur" and lastin: "last cur \<in> set cur" by simp_all
  have a: "loc_set_pvalue (fst (hd cur)) (fst (last cur)) v pre = pre"
    using lo hdin by (intro loc_set_below) auto
  have b: "loc_set_pvalue (fst (hd cur)) (fst (last cur)) v (unscored cur) = with_pvalue v cur"
    using s1 by (intro loc_set_within) (auto intro: sorted_hd_le sorted_le_last)
  have c: "loc_set_pvalue (fst (hd cur)) (fst (last cur)) v (unscored post) = unscored post"
  proof (rule loc_set_above)
    show "\<forall>y \<in> set (unscored post). fst (last cur) < fst y"
      using hi lastin by (fastforce simp: unscored_def)
  qed
  show ?thesis by (simp add: loc_set_append a b c)
qed

text \<open>One round of the loop, by case: the row continues the run or starts a new one, and
  it is the last row of the frame or not.\<close>

lemma state_main_id: "main_tad_coords st = Some k \<Longrightarrow> st\<lparr>main_tad_coords := Some k\<rparr> = st"
  by (cases st) simp

lemma loop_step_same:
  assumes "main_tad_coords st = Some k" "main_of r = k" "i \<noteq> L"
  shows "choose_region_loop score L ((i, r) # rest) st =
         choose_region_loop score L rest
           (st\<lparr>big_tad_indicies := big_tad_indicies st @ [i],
               small_tads_coords := small_tads_coords st @ [small_of r]\<rparr>)"
  using assms by (simp add: choose_region_loop.simps(2) Let_def state_main_id)

lemma loop_step_same_last:
  assumes "main_tad_coords st = Some k" "main_of r = k"
  shows "choose_region_loop score i ((i, r) # rest) st =
         (case score_rows score k
                 (st\<lparr>big_tad_indicies := big_tad_indicies st @ [i],
                     small_tads_coords := small_tads_coords st @ [small_of r]\<rparr>) of
            Inl e \<Rightarrow> Inl e
          | Inr st4 \<Rightarrow> choose_region_loop score i rest st4)"
  using assms by (simp add: choose_region_loop.simps(2) Let_def state_main_id)

lemma loop_step_new:
  assumes "main_tad_coords st = Some k" "main_of r \<noteq> k" "i \<noteq> 0" "i \<noteq> L"
  shows "choose_region_loop score L ((i, r) # rest) st =
         (case score_rows score k st of
            Inl e \<Rightarrow> Inl e
          | Inr st' \<Rightarrow>
              choose_region_loop score L rest
                (st'\<lparr>main_tad_coords := Some (main_of r),
                     big_tad_indicies := [i],
                     small_tads_coords := [small_of r]\<rparr>))"
  using assms by (auto simp add: choose_region_loop.simps(2) Let_def split: sum.splits)

lemma loop_step_new_last:
  assumes "main_tad_coords st = Some k" "main_of r \<noteq> k" "i \<noteq> 0"
  shows "choose_region_loop score i ((i, r) # rest) st =
         (case score_rows score k st of
            Inl e \<Rightarrow> Inl e
          | Inr st' \<Rightarrow>
              (case score_rows score (main_of r)
                      (st'\<lparr>main_tad_coords := Some (main_of r),
                           big_tad_indicies := [i],
                           small_tads_coords := [small_of r]\<rparr>) of
                 Inl e \<Rightarrow> Inl e
               | Inr st4 \<Rightarrow> choose_region_loop score i rest st4))"
  using assms by (auto simp add: choose_region_loop.simps(2) Let_def split: sum.splits)

lemma score_rows_run:
  assumes ne: "cur \<noteq> []"
    and idx: "big_tad_indicies st = map fst cur"
    and sm: "small_tads_coords st = sms"
    and df: "df_with_value st = pre @ unscored cur @ unscored post"
    and srt: "sorted_wrt (<) (map fst pre @ map fst cur @ map fst post)"
  shows "score_rows score k st =
         (case score k sms of
            Inl e \<Rightarrow> Inl e
          | Inr v \<Rightarrow>
              Inr (st\<lparr>df_with_value := pre @ with_pvalue v cur @ unscored post,
                      scored := scored st @ [(k, sms)]\<rparr>))"
proof -
  have run: "loc_set_pvalue (hd (map fst cur)) (last (map fst cur)) v
               (pre @ unscored cur @ unscored post) = pre @ with_pvalue v cur @ unscored post" for v
    using loc_set_run [OF srt ne, of v] ne by (simp add: last_map hd_map)
  show ?thesis
    unfolding score_rows_def idx sm df
    by (simp add: ne run split: sum.splits)
qed

lemma unscored_simps [simp]:
  "unscored [] = []"
  "unscored (x # xs) = (fst x, snd x, NaN) # unscored xs"
  "unscored (xs @ ys) = unscored xs @ unscored ys"
  by (simp_all add: unscored_def split_beta)

lemma with_pvalue_simps [simp]:
  "with_pvalue v [] = []"
  "with_pvalue v (x # xs) = (fst x, snd x, v) # with_pvalue v xs"
  "with_pvalue v (xs @ ys) = with_pvalue v xs @ with_pvalue v ys"
  "map fst (with_pvalue v xs) = map fst xs"
  by (simp_all add: with_pvalue_def split_beta)

lemma score_runs_with_pvalue:
  "score_runs score cur [] =
     (case score (main_of (snd (hd cur))) (smalls cur) of
        Inl e \<Rightarrow> Inl e
      | Inr v \<Rightarrow> Inr (with_pvalue v cur, [(main_of (snd (hd cur)), smalls cur)]))"
  "score_runs score cur (x # rest) =
     (if main_of (snd x) = main_of (snd (hd cur)) then score_runs score (cur @ [x]) rest
      else (case score (main_of (snd (hd cur))) (smalls cur) of
              Inl e \<Rightarrow> Inl e
            | Inr v \<Rightarrow>
                after (with_pvalue v cur) [(main_of (snd (hd cur)), smalls cur)]
                  (score_runs score [x] rest)))"
  by (simp_all add: score_runs.simps after_def split: sum.splits)

lemma after_after:
  "after p c (after p' c' res) = after (p @ p') (c @ c') res"
  by (simp add: after_def split: sum.splits prod.splits)

text \<open>The loop and the scoring by runs agree. \<open>cur\<close> is the run gathered so far, \<open>pre\<close>
  the rows already scored, \<open>x # rest\<close> the rows to come; the labels grow strictly and
  none of the rows to come has the label 0.\<close>

lemma choose_region_loop_runs:
  assumes "cur \<noteq> []"
    and "\<forall>y \<in> set cur. main_of (snd y) = k"
    and "main_tad_coords st = Some k"
    and "big_tad_indicies st = map fst cur"
    and "small_tads_coords st = smalls cur"
    and "df_with_value st = pre @ unscored cur @ unscored (x # rest)"
    and "sorted_wrt (<) (map fst pre @ map fst cur @ map fst (x # rest))"
    and "0 \<notin> fst ` set (x # rest)"
  shows "outcome (choose_region_loop score (fst (last (x # rest))) (x # rest) st)
       = after pre (scored st) (score_runs score cur (x # rest))"
  using assms
proof (induction rest arbitrary: x cur st pre k)
  case Nil
  obtain i r where x: "x = (i, r)" by (cases x)
  from Nil.prems(1,2) have hdk: "main_of (snd (hd cur)) = k" by simp
  from Nil.prems(8) have i0: "i \<noteq> 0" by (simp add: x)
  show ?case
  proof (cases "main_of r = k")
    case True
    let ?st3 = "st\<lparr>big_tad_indicies := big_tad_indicies st @ [i],
                   small_tads_coords := small_tads_coords st @ [small_of r]\<rparr>"
    have lhs: "choose_region_loop score (fst (last [x])) [x] st =
         (case score_rows score k ?st3 of Inl e \<Rightarrow> Inl e | Inr st4 \<Rightarrow> Inr st4)"
      using loop_step_same_last [OF Nil.prems(3) True, of score i "[]"] by (simp add: x split: sum.splits)
    have sr: "score_rows score k ?st3 =
         (case score k (smalls (cur @ [x])) of
            Inl e \<Rightarrow> Inl e
          | Inr v \<Rightarrow>
              Inr (?st3\<lparr>df_with_value := pre @ with_pvalue v (cur @ [x]) @ unscored [],
                      scored := scored ?st3 @ [(k, smalls (cur @ [x]))]\<rparr>))"
      using Nil.prems
      by (intro score_rows_run) (simp_all add: x)
    have rhs: "score_runs score cur [x] =
         (case score k (smalls (cur @ [x])) of
            Inl e \<Rightarrow> Inl e
          | Inr v \<Rightarrow> Inr (with_pvalue v (cur @ [x]), [(k, smalls (cur @ [x]))]))"
      using True hdk Nil.prems(1) by (simp add: score_runs_with_pvalue x split: sum.splits)
    show ?thesis
      unfolding lhs sr rhs
      by (simp add: outcome_def after_def split: sum.splits)
  next
    case False
    have lhs: "choose_region_loop score (fst (last [x])) [x] st =
         (case score_rows score k st of
            Inl e \<Rightarrow> Inl e
          | Inr st' \<Rightarrow>
              (case score_rows score (main_of r)
                      (st'\<lparr>main_tad_coords := Some (main_of r),
                           big_tad_indicies := [i],
                           small_tads_coords := [small_of r]\<rparr>) of
                 Inl e \<Rightarrow> Inl e
               | Inr st4 \<Rightarrow> Inr st4))"
      using loop_step_new_last [OF Nil.prems(3) False i0, of score "[]"] by (simp add: x split: sum.splits)
    have sr1: "score_rows score k st =
         (case score k (smalls cur) of
            Inl e \<Rightarrow> Inl e
          | Inr v \<Rightarrow>
              Inr (st\<lparr>df_with_value := pre @ with_pvalue v cur @ unscored [x],
                      scored := scored st @ [(k, smalls cur)]\<rparr>))"
      using Nil.prems
      by (intro score_rows_run) simp_all
    have sr2: "score_rows score (main_of r)
           (st\<lparr>df_with_value := pre @ with_pvalue v cur @ [(i, r, NaN)],
                      scored := sc,
                      main_tad_coords := Some (main_of r),
                      big_tad_indicies := [i],
                      small_tads_coords := [small_of r]\<rparr>) =
         (case score (main_of r) [small_of r] of
            Inl e \<Rightarrow> Inl e
          | Inr w \<Rightarrow>
              Inr (st\<lparr>df_with_value := pre @ with_pvalue v cur @ [(i, r, w)],
                      scored := sc @ [(main_of r, [small_of r])],
                      main_tad_coords := Some (main_of r),
                      big_tad_indicies := [i],
                      small_tads_coords := [small_of r]\<rparr>))" for v sc
      using Nil.prems(7)
        score_rows_run [where cur = "[x]" and pre = "pre @ with_pvalue v cur"
            and post = "[]" and sms = "[small_of r]" and score = score and k = "main_of r"
            and st = "st\<lparr>df_with_value := pre @ with_pvalue v cur @ [(i, r, NaN)],
                      scored := sc,
                      main_tad_coords := Some (main_of r),
                      big_tad_indicies := [i],
                      small_tads_coords := [small_of r]\<rparr>"]
      by (simp add: x split: sum.splits)
    have rhs: "score_runs score cur [x] =
         (case score k (smalls cur) of
            Inl e \<Rightarrow> Inl e
          | Inr v \<Rightarrow>
              (case score (main_of r) [small_of r] of
                 Inl e \<Rightarrow> Inl e
               | Inr w \<Rightarrow> Inr (with_pvalue v cur @ with_pvalue w [x],
                    [(k, smalls cur), (main_of r, [small_of r])])))"
      using False hdk by (simp add: score_runs_with_pvalue after_def x split: sum.splits)
    show ?thesis
      unfolding lhs rhs
      by (simp add: sr1 sr2 outcome_def after_def x split: sum.splits)
  qed
next
  case (Cons y rest)
  obtain i r where x: "x = (i, r)" by (cases x)
  from Cons.prems(1,2) have hdk: "main_of (snd (hd cur)) = k" by simp
  from Cons.prems(8) have i0: "i \<noteq> 0" by (simp add: x)
  have lastin: "last (y # rest) \<in> set (y # rest)" by (rule last_in_set) simp
  from Cons.prems(7) have "\<forall>z \<in> set (y # rest). i < fst z"
    by (simp add: x sorted_wrt_append)
  with lastin have iL: "i \<noteq> fst (last (y # rest))" by fastforce
  have L: "last (x # y # rest) = last (y # rest)" by simp
  show ?case
  proof (cases "main_of r = k")
    case True
    let ?st3 = "st\<lparr>big_tad_indicies := big_tad_indicies st @ [i],
                   small_tads_coords := small_tads_coords st @ [small_of r]\<rparr>"
    have lhs: "choose_region_loop score (fst (last (y # rest))) (x # y # rest) st =
         choose_region_loop score (fst (last (y # rest))) (y # rest) ?st3"
      unfolding x by (rule loop_step_same [OF Cons.prems(3) True iL])
    have ih: "outcome (choose_region_loop score (fst (last (y # rest))) (y # rest) ?st3)
       = after pre (scored ?st3) (score_runs score (cur @ [x]) (y # rest))"
      using Cons.prems True
      by (intro Cons.IH [where k = k]) (auto simp: x)
    have rhs: "score_runs score cur (x # y # rest) = score_runs score (cur @ [x]) (y # rest)"
      using True hdk by (simp add: x score_runs_with_pvalue(2))
    show ?thesis
      unfolding L lhs rhs ih by simp
  next
    case False
    have lhs: "choose_region_loop score (fst (last (y # rest))) (x # y # rest) st =
         (case score_rows score k st of
            Inl e \<Rightarrow> Inl e
          | Inr st' \<Rightarrow>
              choose_region_loop score (fst (last (y # rest))) (y # rest)
                (st'\<lparr>main_tad_coords := Some (main_of r),
                     big_tad_indicies := [i],
                     small_tads_coords := [small_of r]\<rparr>))"
      unfolding x by (rule loop_step_new [OF Cons.prems(3) False i0 iL])
    have sr1: "score_rows score k st =
         (case score k (smalls cur) of
            Inl e \<Rightarrow> Inl e
          | Inr v \<Rightarrow>
              Inr (st\<lparr>df_with_value := pre @ with_pvalue v cur @ unscored (x # y # rest),
                      scored := scored st @ [(k, smalls cur)]\<rparr>))"
      using Cons.prems
      by (intro score_rows_run) simp_all
    have ih: "outcome (choose_region_loop score (fst (last (y # rest))) (y # rest)
          (st\<lparr>df_with_value := pre @ with_pvalue v cur @ unscored (x # y # rest),
                      scored := scored st @ [(k, smalls cur)],
                      main_tad_coords := Some (main_of r),
                      big_tad_indicies := [i],
                      small_tads_coords := [small_of r]\<rparr>))
       = after (pre @ with_pvalue v cur) (scored st @ [(k, smalls cur)])
           (score_runs score [x] (y # rest))" for v
      using Cons.prems(7,8)
        Cons.IH [where k = "main_of r" and x = y and cur = "[x]"
          and pre = "pre @ with_pvalue v cur"
          and st = "st\<lparr>df_with_value := pre @ with_pvalue v cur @ unscored (x # y # rest),
                      scored := scored st @ [(k, smalls cur)],
                      main_tad_coords := Some (main_of r),
                      big_tad_indicies := [i],
                      small_tads_coords := [small_of r]\<rparr>"]
      by (simp add: x)
    have rhs: "score_runs score cur (x # y # rest) =
         (case score k (smalls cur) of
            Inl e \<Rightarrow> Inl e
          | Inr v \<Rightarrow> after (with_pvalue v cur) [(k, smalls cur)]
                       (score_runs score [x] (y # rest)))"
      using False hdk by (simp add: score_runs_with_pvalue(2) x split: sum.splits)
    show ?thesis
    proof (cases "score k (smalls cur)")
      case (Inl e)
      then show ?thesis
        unfolding L lhs rhs sr1 by (simp add: outcome_def after_def)
    next
      case (Inr v)
      show ?thesis
        unfolding L lhs rhs sr1
        by (simp only: Inr sum.case ih [of v] after_after)
    qed
  qed
qed

subsection \<open>Scoring the candidate groups: runs and groups\<close>

text \<open>Where the rows of every group stand together, a run is a whole group: the scoring
  by runs makes one call per group, on all small TADs of the group, and every row gets
  the p-value of the call for its group.\<close>

lemma consecutive_groups_block:
  assumes "bs \<noteq> []" "\<forall>b \<in> set bs. b = k" "k' \<noteq> k" "consecutive_groups (bs @ k' # ks)"
  shows "k \<notin> set (k' # ks) \<and> consecutive_groups (k' # ks)"
  using assms
proof (induction bs)
  case Nil
  then show ?case by simp
next
  case (Cons b bs)
  show ?case
  proof (cases "bs = []")
    case True
    with Cons.prems show ?thesis by auto
  next
    case False
    with Cons.prems show ?thesis by (intro Cons.IH) auto
  qed
qed

lemma unique_block:
  assumes "bs \<noteq> []" "\<forall>b \<in> set bs. b = k" "k \<notin> set ks"
  shows "unique (bs @ ks) = k # unique ks"
proof -
  from assms(1,2) obtain bs' where bs: "bs = k # bs'" by (cases bs) auto
  from assms(2) have "filter (\<lambda>y. y \<noteq> k) bs' = []" by (auto simp: bs filter_empty_conv)
  moreover from assms(3) have "filter (\<lambda>y. y \<noteq> k) ks = ks" by (auto simp: filter_id_conv)
  ultimately show ?thesis by (simp add: bs)
qed

lemma group_smalls_block:
  assumes "\<forall>y \<in> set cur. main_of (snd y) = k" "k \<notin> set (mains rest)"
  shows "group_smalls (cur @ rest) k = smalls cur"
proof -
  from assms(1) have "filter (\<lambda>r. main_of r = k) (map snd cur) = map snd cur"
    by (auto simp: filter_id_conv)
  moreover from assms(2) have "filter (\<lambda>r. main_of r = k) (map snd rest) = []"
    by (auto simp: filter_empty_conv)
  ultimately show ?thesis by (simp add: group_smalls_def smalls_def comp_def)
qed

lemma group_smalls_after_block:
  assumes "\<forall>y \<in> set cur. main_of (snd y) = k" "m \<noteq> k"
  shows "group_smalls (cur @ rest) m = group_smalls rest m"
proof -
  from assms have "filter (\<lambda>r. main_of r = m) (map snd cur) = []"
    by (auto simp: filter_empty_conv)
  then show ?thesis by (simp add: group_smalls_def)
qed

lemma strip_simps [simp]:
  "strip [] = []"
  "strip (xs @ ys) = strip xs @ strip ys"
  by (simp_all add: strip_def)

lemma strip_with_pvalue [simp]: "strip (with_pvalue v df) = df"
  by (induction df) (auto simp: strip_def with_pvalue_def)

lemma score_runs_groups:
  assumes "cur \<noteq> []"
    and "\<forall>y \<in> set cur. main_of (snd y) = k"
    and "consecutive_groups (mains (cur @ rest))"
    and "score_runs score cur rest = Inr (out, calls)"
  shows "strip out = cur @ rest \<and>
         map fst calls = unique (mains (cur @ rest)) \<and>
         (\<forall>c \<in> set calls. snd c = group_smalls (cur @ rest) (fst c)) \<and>
         (\<forall>a \<in> set out. score (main_of (fst (snd a))) (group_smalls (cur @ rest) (main_of (fst (snd a))))
              = Inr (snd (snd a)))"
  using assms
proof (induction rest arbitrary: cur out calls k)
  case Nil
  from Nil.prems(1,2) have hdk: "main_of (snd (hd cur)) = k" by simp
  from Nil.prems(4) obtain v where v: "score k (smalls cur) = Inr v"
    and out: "out = with_pvalue v cur" and calls: "calls = [(k, smalls cur)]"
    by (auto simp: score_runs_with_pvalue hdk split: sum.splits)
  have g: "group_smalls cur k = smalls cur"
    using group_smalls_block [OF Nil.prems(2), of "[]"] by simp
  have u: "unique (mains cur) = [k]"
    using unique_block [of "mains cur" k "[]"] Nil.prems(1,2) by simp
  have "\<forall>a \<in> set out. main_of (fst (snd a)) = k \<and> snd (snd a) = v"
    using Nil.prems(2) by (auto simp: out with_pvalue_def)
  then show ?case
    by (simp add: out calls g u v)
next
  case (Cons x rest)
  from Cons.prems(1,2) have hdk: "main_of (snd (hd cur)) = k" by simp
  show ?case
  proof (cases "main_of (snd x) = k")
    case True
    from Cons.prems(4) True hdk have run: "score_runs score (cur @ [x]) rest = Inr (out, calls)"
      by (simp add: score_runs_with_pvalue(2))
    have "strip out = (cur @ [x]) @ rest \<and>
         map fst calls = unique (mains ((cur @ [x]) @ rest)) \<and>
         (\<forall>c \<in> set calls. snd c = group_smalls ((cur @ [x]) @ rest) (fst c)) \<and>
         (\<forall>a \<in> set out. score (main_of (fst (snd a)))
              (group_smalls ((cur @ [x]) @ rest) (main_of (fst (snd a)))) = Inr (snd (snd a)))"
      using Cons.prems(2,3) True by (intro Cons.IH [OF _ _ _ run, where k = k]) auto
    then show ?thesis by simp
  next
    case False
    from Cons.prems(4) False hdk obtain v out' calls'
      where v: "score k (smalls cur) = Inr v"
        and run: "score_runs score [x] rest = Inr (out', calls')"
        and out: "out = with_pvalue v cur @ out'"
        and calls: "calls = (k, smalls cur) # calls'"
      by (auto simp: score_runs_with_pvalue(2) after_def split: sum.splits)
    have blk: "k \<notin> set (mains (x # rest)) \<and>
               consecutive_groups (mains (x # rest))"
      using consecutive_groups_block [of "mains cur" k "main_of (snd x)"
          "mains rest"] Cons.prems(1,2,3) False by simp
    have ih: "strip out' = [x] @ rest \<and>
         map fst calls' = unique (mains ([x] @ rest)) \<and>
         (\<forall>c \<in> set calls'. snd c = group_smalls ([x] @ rest) (fst c)) \<and>
         (\<forall>a \<in> set out'. score (main_of (fst (snd a)))
              (group_smalls ([x] @ rest) (main_of (fst (snd a)))) = Inr (snd (snd a)))"
      using blk by (intro Cons.IH [OF _ _ _ run, where k = "main_of (snd x)"]) auto
    have gk: "group_smalls (cur @ x # rest) k = smalls cur"
      using group_smalls_block [OF Cons.prems(2), of "x # rest"] blk by simp
    have gm: "group_smalls (cur @ x # rest) m = group_smalls (x # rest) m" if "m \<noteq> k" for m
      using group_smalls_after_block [OF Cons.prems(2) that] .
    have u: "unique (mains (cur @ x # rest))
             = k # unique (mains (x # rest))"
      using unique_block [of "mains cur" k "mains (x # rest)"]
        Cons.prems(1,2) blk by simp
    have keys_calls: "\<forall>c \<in> set calls'. fst c \<noteq> k"
    proof
      fix c assume "c \<in> set calls'"
      then have "fst c \<in> set (map fst calls')" by simp
      with ih have "fst c \<in> set (unique (mains ([x] @ rest)))" by metis
      then have "fst c \<in> set (mains (x # rest))" by (simp del: unique.simps)
      with blk show "fst c \<noteq> k" by auto
    qed
    have keys_out: "\<forall>a \<in> set out'. main_of (fst (snd a)) \<noteq> k"
    proof
      fix a assume a: "a \<in> set out'"
      then have "(fst a, fst (snd a)) \<in> set (strip out')"
        by (force simp: strip_def split_beta)
      with ih have "(fst a, fst (snd a)) \<in> set (x # rest)" by simp
      then have "main_of (fst (snd a)) \<in> set (mains (x # rest))" by force
      with blk show "main_of (fst (snd a)) \<noteq> k" by auto
    qed
    have cur_out: "\<forall>a \<in> set (with_pvalue v cur). main_of (fst (snd a)) = k \<and> snd (snd a) = v"
      using Cons.prems(2) by (auto simp: with_pvalue_def)
    have c1: "strip out = cur @ x # rest"
      using ih by (simp add: out)
    have c2: "map fst calls = unique (mains (cur @ x # rest))"
    proof -
      from ih have "map fst calls' = unique (mains ([x] @ rest))" by blast
      then show ?thesis unfolding calls u by (simp del: unique.simps)
    qed
    have c3: "snd c = group_smalls (cur @ x # rest) (fst c)" if "c \<in> set calls" for c
    proof -
      from that consider "c = (k, smalls cur)" | "c \<in> set calls'" by (auto simp: calls)
      then show ?thesis
      proof cases
        case 1
        then show ?thesis by (simp add: gk)
      next
        case 2
        with keys_calls have "fst c \<noteq> k" by blast
        from gm [OF this] ih 2 show ?thesis by simp
      qed
    qed
    have c4: "score (main_of (fst (snd a))) (group_smalls (cur @ x # rest) (main_of (fst (snd a))))
              = Inr (snd (snd a))" if "a \<in> set out" for a
    proof -
      from that consider "a \<in> set (with_pvalue v cur)" | "a \<in> set out'" by (auto simp: out)
      then show ?thesis
      proof cases
        case 1
        with cur_out have "main_of (fst (snd a)) = k" "snd (snd a) = v" by blast+
        then show ?thesis by (simp add: gk v)
      next
        case 2
        with keys_out have "main_of (fst (snd a)) \<noteq> k" by blast
        from gm [OF this] ih 2 show ?thesis by simp
      qed
    qed
    from c1 c2 c3 c4 show ?thesis by blast
  qed
qed

subsection \<open>Scoring the candidate groups: the whole function\<close>

lemma after_Nil [simp]: "after [] [] res = res"
  by (simp add: after_def split: sum.splits)

lemma loop_first:
  "choose_region_loop score L ((0, r) # rest) st =
   choose_region_loop score L ((0, r) # rest) (st\<lparr>main_tad_coords := Some (main_of r)\<rparr>)"
  by (simp add: choose_region_loop.simps(2) Let_def)

lemma choose_region_outcome:
  "choose_region df clr_1 clr_2 mwu =
     outcome (choose_region_loop (\<lambda>m s. create_diff_matrix m s clr_1 clr_2 mwu) (fst (last df)) df
       \<lparr>main_tad_coords = None, small_tads_coords = [], big_tad_indicies = [],
        df_with_value = unscored df, scored = []\<rparr>)"
  by (simp add: choose_region_def outcome_def)

lemma choose_region_single:
  "choose_region [(0, r)] clr_1 clr_2 mwu =
     score_runs (\<lambda>m s. create_diff_matrix m s clr_1 clr_2 mwu) [(0, r)] []"
proof -
  let ?score = "\<lambda>m s. create_diff_matrix m s clr_1 clr_2 mwu"
  let ?st0 = "\<lparr>main_tad_coords = None, small_tads_coords = [], big_tad_indicies = [],
        df_with_value = unscored [(0, r)], scored = []\<rparr>"
  let ?st1 = "?st0\<lparr>main_tad_coords := Some (main_of r)\<rparr>"
  let ?st3 = "?st1\<lparr>big_tad_indicies := big_tad_indicies ?st1 @ [0],
                   small_tads_coords := small_tads_coords ?st1 @ [small_of r]\<rparr>"
  have lhs: "choose_region_loop ?score (fst (last [(0, r)])) [(0, r)] ?st0 =
       (case score_rows ?score (main_of r) ?st3 of Inl e \<Rightarrow> Inl e | Inr st4 \<Rightarrow> Inr st4)"
    using loop_first [of ?score 0 r "[]" ?st0]
      loop_step_same_last [of ?st1 "main_of r" r ?score 0 "[]"]
    by (simp split: sum.splits)
  have sr: "score_rows ?score (main_of r) ?st3 =
       (case ?score (main_of r) (smalls [(0, r)]) of
          Inl e \<Rightarrow> Inl e
        | Inr v \<Rightarrow>
            Inr (?st3\<lparr>df_with_value := [] @ with_pvalue v [(0, r)] @ unscored [],
                    scored := scored ?st3 @ [(main_of r, smalls [(0, r)])]\<rparr>))"
    by (intro score_rows_run) simp_all
  show ?thesis
    unfolding choose_region_outcome lhs sr
    by (simp add: outcome_def score_runs_with_pvalue split: sum.splits)
qed

lemma choose_region_several:
  assumes srt: "sorted_wrt (<) (map fst ((0, r) # y # rest))"
  shows "choose_region ((0, r) # y # rest) clr_1 clr_2 mwu =
         score_runs (\<lambda>m s. create_diff_matrix m s clr_1 clr_2 mwu) [(0, r)] (y # rest)"
proof -
  let ?score = "\<lambda>m s. create_diff_matrix m s clr_1 clr_2 mwu"
  let ?st0 = "\<lparr>main_tad_coords = None, small_tads_coords = [], big_tad_indicies = [],
        df_with_value = unscored ((0, r) # y # rest), scored = []\<rparr>"
  let ?st1 = "?st0\<lparr>main_tad_coords := Some (main_of r)\<rparr>"
  let ?st3 = "?st1\<lparr>big_tad_indicies := big_tad_indicies ?st1 @ [0],
                   small_tads_coords := small_tads_coords ?st1 @ [small_of r]\<rparr>"
  have lastin: "last (y # rest) \<in> set (y # rest)" by (rule last_in_set) simp
  from srt have pos: "\<forall>z \<in> set (y # rest). 0 < fst z" by simp
  with lastin have L0: "0 \<noteq> fst (last (y # rest))" by fastforce
  from pos have nz: "0 \<notin> fst ` set (y # rest)" by fastforce
  have lhs: "choose_region_loop ?score (fst (last ((0, r) # y # rest))) ((0, r) # y # rest) ?st0 =
       choose_region_loop ?score (fst (last (y # rest))) (y # rest) ?st3"
    using loop_first [of ?score "fst (last (y # rest))" r "y # rest" ?st0]
      loop_step_same [of ?st1 "main_of r" r 0 "fst (last (y # rest))" ?score "y # rest"] L0
    by simp
  have runs: "outcome (choose_region_loop ?score (fst (last (y # rest))) (y # rest) ?st3)
     = after [] (scored ?st3) (score_runs ?score [(0, r)] (y # rest))"
    using srt nz
    by (intro choose_region_loop_runs [where k = "main_of r"]) simp_all
  show ?thesis
    unfolding choose_region_outcome lhs runs by simp
qed

lemma choose_region_is_score_runs:
  assumes srt: "sorted_wrt (<) (map fst (x # rest))" and x0: "fst x = 0"
  shows "choose_region (x # rest) clr_1 clr_2 mwu =
         score_runs (\<lambda>m s. create_diff_matrix m s clr_1 clr_2 mwu) [x] rest"
proof -
  obtain r where x: "x = (0, r)" using x0 by (cases x) auto
  show ?thesis
  proof (cases rest)
    case Nil
    then show ?thesis unfolding x by (simp only: choose_region_single)
  next
    case (Cons y rest')
    with srt show ?thesis unfolding x by (simp only: choose_region_several)
  qed
qed

lemma choose_region_Nil: "choose_region [] clr_1 clr_2 mwu = Inr ([], [])"
  by (simp add: choose_region_def)

lemma choose_region_unbound:
  assumes "df \<noteq> []" and "fst (hd df) \<noteq> 0"
  shows "choose_region df clr_1 clr_2 mwu = Inl UnboundLocalError"
  using assms by (cases df) (auto simp: choose_region_def Let_def choose_region_loop.simps(2))

lemma choose_region_groups:
  assumes srt: "sorted_wrt (<) (map fst df)"
    and grp: "consecutive_groups (mains df)"
    and ok: "choose_region df clr_1 clr_2 mwu = Inr (out, calls)"
  shows "strip out = df \<and>
         map fst calls = unique (mains df) \<and>
         (\<forall>(m, s) \<in> set calls. s = group_smalls df m) \<and>
         (\<forall>(i, r, p) \<in> set out.
            create_diff_matrix (main_of r) (group_smalls df (main_of r)) clr_1 clr_2 mwu = Inr p) \<and>
         (\<forall>(i, r, p) \<in> set out. \<forall>(i', r', p') \<in> set out. main_of r = main_of r' \<longrightarrow> p = p')"
proof (cases df)
  case Nil
  with ok show ?thesis by (simp add: choose_region_Nil)
next
  case (Cons x rest)
  have x0: "fst x = 0"
  proof (rule ccontr)
    assume "fst x \<noteq> 0"
    with choose_region_unbound [of df clr_1 clr_2 mwu] Cons ok show False by simp
  qed
  let ?score = "\<lambda>m s. create_diff_matrix m s clr_1 clr_2 mwu"
  from ok have run: "score_runs ?score [x] rest = Inr (out, calls)"
    using choose_region_is_score_runs [of x rest clr_1 clr_2 mwu] srt x0 by (simp add: Cons)
  have g: "strip out = [x] @ rest \<and>
         map fst calls = unique (mains ([x] @ rest)) \<and>
         (\<forall>c \<in> set calls. snd c = group_smalls ([x] @ rest) (fst c)) \<and>
         (\<forall>a \<in> set out. ?score (main_of (fst (snd a))) (group_smalls ([x] @ rest) (main_of (fst (snd a))))
              = Inr (snd (snd a)))"
    using grp by (intro score_runs_groups [OF _ _ _ run, where k = "main_of (snd x)"]) (simp_all add: Cons)
  have df: "[x] @ rest = df" by (simp add: Cons)
  note g' = g [unfolded df]
  from g' have c1: "strip out = df" by blast
  from g' have c2: "map fst calls = unique (mains df)" by blast
  have c3: "\<forall>(m, s) \<in> set calls. s = group_smalls df m"
  proof (clarify)
    fix m s assume "(m, s) \<in> set calls"
    with g' have "snd (m, s) = group_smalls df (fst (m, s))" by blast
    then show "s = group_smalls df m" by simp
  qed
  have p: "create_diff_matrix (main_of r) (group_smalls df (main_of r)) clr_1 clr_2 mwu = Inr v"
    if "(i, r, v) \<in> set out" for i r v
  proof -
    from g' that have "?score (main_of (fst (snd (i, r, v))))
        (group_smalls df (main_of (fst (snd (i, r, v))))) = Inr (snd (snd (i, r, v)))" by blast
    then show ?thesis by simp
  qed
  have c4: "\<forall>(i, r, p) \<in> set out.
            create_diff_matrix (main_of r) (group_smalls df (main_of r)) clr_1 clr_2 mwu = Inr p"
    using p by blast
  have c5: "\<forall>(i, r, p) \<in> set out. \<forall>(i', r', p') \<in> set out. main_of r = main_of r' \<longrightarrow> p = p'"
  proof (clarify)
    fix i r v i' r' v'
    assume a: "(i, r, v) \<in> set out" and b: "(i', r', v') \<in> set out" and e: "main_of r = main_of r'"
    from p [OF a] p [OF b] e show "v = v'" by simp
  qed
  from c1 c2 c3 c4 c5 show ?thesis by (intro conjI)
qed

text \<open>The labels of the frames that reach \<^verbatim>\<open>choose_region\<close> grow strictly: a range index,
  filtered by \<^verbatim>\<open>find_split\<close> or made afresh by \<^verbatim>\<open>pd.concat\<close>.\<close>

lemma range_index_lower: "x \<in> set (range_index n xs) \<Longrightarrow> n \<le> fst x"
  by (induction xs arbitrary: n) force+

lemma range_index_sorted: "sorted_wrt (<) (map fst (range_index n xs))"
proof (induction xs arbitrary: n)
  case Nil
  show ?case by simp
next
  case (Cons a xs)
  have "n < fst x" if "x \<in> set (range_index (n + 1) xs)" for x
    using range_index_lower [OF that] by simp
  with Cons show ?case by auto
qed

lemma filter_labels_sorted:
  "sorted_wrt (<) (map fst df) \<Longrightarrow> sorted_wrt (<) (map fst (filter P df))"
  by (simp add: sorted_wrt_map sorted_wrt_filter)

lemma find_split_labels_sorted:
  "sorted_wrt (<) (map fst (find_split tad1 tad2 binsize length_flexibility))"
  unfolding find_split_def Let_def merge_on_chrom_def
  by (intro filter_labels_sorted range_index_sorted)

lemma collect_splits_labels_sorted:
  assumes "case acc of None \<Rightarrow> True | Some df \<Rightarrow> sorted_wrt (<) (map fst df)"
    and "collect_splits tad1 tad2 cs acc = Some tbl"
  shows "sorted_wrt (<) (map fst tbl)"
  using assms
proof (induction cs arbitrary: acc)
  case Nil
  then show ?case by simp
next
  case (Cons c cs)
  let ?found = "find_split (fst (get_chroms_coords tad1 tad2 c)) (snd (get_chroms_coords tad1 tad2 c))
                  100000 (11 / 10)"
  let ?acc = "case acc of None \<Rightarrow> Some ?found | Some [] \<Rightarrow> Some ?found
              | Some (x # xs) \<Rightarrow> Some (range_index 0 (map snd (x # xs) @ map snd ?found))"
  have step: "collect_splits tad1 tad2 cs ?acc = Some tbl"
    using Cons.prems(2) by (simp add: split_beta Let_def)
  have "case ?acc of None \<Rightarrow> True | Some df \<Rightarrow> sorted_wrt (<) (map fst df)"
    by (auto simp: find_split_labels_sorted range_index_sorted simp del: range_index.simps
        split: option.splits list.splits)
  from Cons.IH [OF this step] show ?case .
qed

text \<open>And the rows of every group stand together in these frames, as long as the first
  table lists no TAD twice: the merge goes through the first table row by row, filters
  keep the order, and frames of different chromosomes share no group.\<close>

lemma dropWhile_filter_subset:
  "set (dropWhile (\<lambda>y. y = k) (map f (filter P xs))) \<subseteq> set (dropWhile (\<lambda>y. y = k) (map f xs))"
proof (induction xs)
  case Nil
  show ?case by simp
next
  case (Cons x xs)
  show ?case
  proof (cases "f x = k")
    case True
    with Cons show ?thesis by simp
  next
    case False
    have "set (dropWhile (\<lambda>y. y = k) (map f (filter P (x # xs)))) \<subseteq> set (map f (filter P (x # xs)))"
      by (meson set_dropWhileD subsetI)
    also have "\<dots> \<subseteq> set (map f (x # xs))" by auto
    finally show ?thesis using False by simp
  qed
qed

lemma consecutive_groups_filter:
  "consecutive_groups (map f xs) \<Longrightarrow> consecutive_groups (map f (filter P xs))"
proof (induction xs)
  case Nil
  show ?case by simp
next
  case (Cons x xs)
  from Cons.prems have notin: "f x \<notin> set (dropWhile (\<lambda>y. y = f x) (map f xs))"
    and rest: "consecutive_groups (map f xs)" by simp_all
  from Cons.IH [OF rest] have ih: "consecutive_groups (map f (filter P xs))" .
  show ?case
  proof (cases "P x")
    case True
    from notin dropWhile_filter_subset [of "f x" f P xs]
    have "f x \<notin> set (dropWhile (\<lambda>y. y = f x) (map f (filter P xs)))" by blast
    with True ih show ?thesis by simp
  next
    case False
    with ih show ?thesis by simp
  qed
qed

lemma consecutive_groups_block_front:
  assumes "k \<notin> set rest" "consecutive_groups rest"
  shows "consecutive_groups (replicate n k @ rest)"
proof (induction n)
  case 0
  from assms show ?case by simp
next
  case (Suc n)
  have "dropWhile (\<lambda>y. y = k) (replicate n k @ rest) = dropWhile (\<lambda>y. y = k) rest"
    by (induction n) simp_all
  moreover have "k \<notin> set (dropWhile (\<lambda>y. y = k) rest)"
    using assms(1) by (meson set_dropWhileD)
  ultimately show ?case using Suc by simp
qed

lemma consecutive_groups_append:
  assumes "consecutive_groups xs" "consecutive_groups ys" "set xs \<inter> set ys = {}"
  shows "consecutive_groups (xs @ ys)"
  using assms
proof (induction xs)
  case Nil
  then show ?case by simp
next
  case (Cons k xs)
  from Cons.prems have notin: "k \<notin> set (dropWhile (\<lambda>y. y = k) xs)"
    and cx: "consecutive_groups xs" and kys: "k \<notin> set ys" and dis: "set xs \<inter> set ys = {}"
    by auto
  have "set (dropWhile (\<lambda>y. y = k) (xs @ ys)) \<subseteq> set (dropWhile (\<lambda>y. y = k) xs) \<union> set ys"
    by (auto simp: dropWhile_append dest: set_dropWhileD)
  with notin kys have "k \<notin> set (dropWhile (\<lambda>y. y = k) (xs @ ys))" by blast
  moreover from Cons.IH [OF cx Cons.prems(2) dis] have "consecutive_groups (xs @ ys)" .
  ultimately show ?case by simp
qed

lemma mains_range_index: "mains (range_index n rows) = map main_of rows"
  by (induction rows arbitrary: n) (simp_all add: mains_def)

lemma mains_as_map: "mains df = map main_of (map snd df)"
  by (simp add: mains_def)

lemma mains_merged:
  "mains (merge_on_chrom left right) =
     concat (map (\<lambda>a. replicate (length (filter (\<lambda>b. tad_chrom b = tad_chrom a) right))
                          (tad_chrom a, tad_start a, tad_end a)) left)"
  by (simp add: merge_on_chrom_def mains_range_index map_concat comp_def main_of_def merge_row_def
      map_replicate_const)

lemma consecutive_groups_concat:
  assumes "distinct (map w as)"
  shows "consecutive_groups (concat (map (\<lambda>a. replicate (n a) (w a)) as))"
  using assms
proof (induction as)
  case Nil
  show ?case by simp
next
  case (Cons a as)
  have "set (concat (map (\<lambda>a. replicate (n a) (w a)) as)) \<subseteq> w ` set as" by auto
  with Cons.prems have "w a \<notin> set (concat (map (\<lambda>a. replicate (n a) (w a)) as))" by auto
  moreover from Cons have "consecutive_groups (concat (map (\<lambda>a. replicate (n a) (w a)) as))" by simp
  ultimately show ?case by (simp add: consecutive_groups_block_front)
qed

lemma find_split_consecutive:
  assumes "distinct tad1"
  shows "consecutive_groups (mains (find_split tad1 tad2 binsize lf))"
proof -
  let ?w = "\<lambda>a :: sized_tad. (tad_chrom a, tad_start a, tad_end a)"
  let ?left = "modify_tads_map_by_condition tad1 binsize lf"
  have inj: "inj_on (\<lambda>t. ?w (modify_tad t binsize lf)) (set tad1)"
    by (rule inj_onI) (simp add: modify_tad_def)
  with assms have "distinct (map ?w ?left)"
    by (simp add: modify_tads_map_by_condition_def distinct_map comp_def)
  then have "consecutive_groups (mains (merge_on_chrom ?left (add_size_column tad2)))"
    unfolding mains_merged by (rule consecutive_groups_concat)
  then show ?thesis
    unfolding find_split_def Let_def mains_def
    by (intro consecutive_groups_filter)
qed

lemma find_split_chrom:
  assumes "(i, r) \<in> set (find_split (fst (get_chroms_coords tad1 tad2 c))
                              (snd (get_chroms_coords tad1 tad2 c)) binsize lf)"
  shows "chrom r = c"
  using find_split_rows [OF assms]
  by (auto simp: get_chroms_coords_def merge_row_def modify_tad_def)

lemma collect_splits_consecutive:
  assumes "distinct tad1" "distinct cs" "set cs \<inter> seen = {}"
    and "case acc of None \<Rightarrow> True
         | Some df \<Rightarrow> consecutive_groups (mains df) \<and> (\<forall>x \<in> set df. chrom (snd x) \<in> seen)"
    and "collect_splits tad1 tad2 cs acc = Some tbl"
  shows "consecutive_groups (mains tbl)"
  using assms(2-)
proof (induction cs arbitrary: acc seen)
  case Nil
  then show ?case by simp
next
  case (Cons c cs)
  let ?found = "find_split (fst (get_chroms_coords tad1 tad2 c)) (snd (get_chroms_coords tad1 tad2 c))
                  100000 (11 / 10)"
  let ?acc = "case acc of None \<Rightarrow> Some ?found | Some [] \<Rightarrow> Some ?found
              | Some (x # xs) \<Rightarrow> Some (range_index 0 (map snd (x # xs) @ map snd ?found))"
  have step: "collect_splits tad1 tad2 cs ?acc = Some tbl"
    using Cons.prems(4) by (simp add: split_beta Let_def)
  from assms(1) have "distinct (fst (get_chroms_coords tad1 tad2 c))"
    by (simp add: get_chroms_coords_def)
  then have cf: "consecutive_groups (mains ?found)" by (rule find_split_consecutive)
  have chf: "chrom (snd x) = c" if "x \<in> set ?found" for x
    using find_split_chrom [of "fst x" "snd x" tad1 tad2 c] that by simp
  from Cons.prems(1,2) have c: "c \<notin> seen" "distinct cs" "set cs \<inter> insert c seen = {}" by auto
  have inv: "case ?acc of None \<Rightarrow> True
         | Some df \<Rightarrow> consecutive_groups (mains df) \<and> (\<forall>x \<in> set df. chrom (snd x) \<in> insert c seen)"
  proof (cases acc)
    case None
    with cf chf show ?thesis by auto
  next
    case (Some df)
    show ?thesis
    proof (cases df)
      case Nil
      with Some cf chf show ?thesis by auto
    next
      case dfc: (Cons x xs)
      have acc': "?acc = Some (range_index 0 (map snd df @ map snd ?found))"
        by (simp only: Some dfc option.case list.case)
      from Cons.prems(3) Some have ca: "consecutive_groups (mains df)"
        and sa: "\<forall>x \<in> set df. chrom (snd x) \<in> seen" by simp_all
      have dis: "set (mains df) \<inter> set (mains ?found) = {}"
      proof (rule ccontr)
        assume "set (mains df) \<inter> set (mains ?found) \<noteq> {}"
        then obtain m where m1: "m \<in> set (mains df)" and m2: "m \<in> set (mains ?found)"
          by blast
        from m1 obtain y where y: "y \<in> set df" and my: "m = main_of (snd y)"
          by (auto simp: mains_def)
        from m2 obtain z where z: "z \<in> set ?found" and mz: "m = main_of (snd z)"
          by (auto simp: mains_def)
        from my mz have e: "main_of (snd y) = main_of (snd z)" by simp
        from e have "chrom (snd y) = chrom (snd z)" by (simp add: main_of_def)
        with sa y chf [OF z] c(1) show False by auto
      qed
      have m: "mains (range_index 0 (map snd df @ map snd ?found)) = mains df @ mains ?found"
        by (simp add: mains_range_index mains_as_map)
      have rows: "chrom (snd y) \<in> insert c seen"
        if "y \<in> set (range_index 0 (map snd df @ map snd ?found))" for y
      proof -
        have "snd ` set (range_index 0 (map snd df @ map snd ?found))
              = set (map snd df @ map snd ?found)"
          by (metis range_index_snd set_map)
        with that have "snd y \<in> snd ` set df \<union> snd ` set ?found" by auto
        with sa chf show ?thesis by auto
      qed
      from consecutive_groups_append [OF ca cf dis] rows show ?thesis
        unfolding acc' by (simp only: option.case m) blast
    qed
  qed
  from Cons.IH [OF c(2,3) inv step] show ?case .
qed

lemma pipeline_frame_fits:
  assumes "distinct tad1"
    and "collect_splits tad1 tad2 (snd (get_chrom_list tad1 tad2)) None = Some tbl"
  shows "sorted_wrt (<) (map fst tbl) \<and> consecutive_groups (mains tbl)"
proof -
  have d: "distinct (snd (get_chrom_list tad1 tad2))"
    by (simp add: get_chrom_list_def Let_def)
  have "sorted_wrt (<) (map fst tbl)"
    using collect_splits_labels_sorted [OF _ assms(2)] by simp
  moreover have "consecutive_groups (mains tbl)"
    using collect_splits_consecutive [OF assms(1) d _ _ assms(2), of "{}"] by simp
  ultimately show ?thesis ..
qed

text \<open>C10. The coordinates of the current main TAD get their first value only on a row
  whose label is 0. On a frame that is not empty and whose first label is not 0,
  \<^verbatim>\<open>choose_region\<close> reads the unbound variable on the first row and ends with
  \<^verbatim>\<open>UnboundLocalError\<close>; no frame is returned.\<close>

theorem choose_region_first_label_not_0:
  assumes "df \<noteq> []" and "fst (hd df) \<noteq> 0"
  shows "choose_region df clr_1 clr_2 mannwhitneyu = Inl UnboundLocalError"
  using assms by (cases df) (auto simp: choose_region_def Let_def choose_region_loop.simps(2))

text \<open>Such a frame comes out of \<^verbatim>\<open>find_split\<close> for a single chromosome: the first TAD of
  the second table lies outside the search region, so the merged row with label 0 is
  filtered out and the labels 1 and 2 remain. The run of the pipeline on these tables
  ends with the error before anything is written.\<close>

theorem choose_region_first_label_not_0_witness:
  "find_split [chr1_tad 1000000 1300000]
       [chr1_tad 0 500000, chr1_tad 1000000 1140000, chr1_tad 1150000 1300000]
       100000 (11 / 10) \<noteq> [] \<and>
   fst (hd (find_split [chr1_tad 1000000 1300000]
       [chr1_tad 0 500000, chr1_tad 1000000 1140000, chr1_tad 1150000 1300000]
       100000 (11 / 10))) = 1 \<and>
   choose_region (find_split [chr1_tad 1000000 1300000]
       [chr1_tad 0 500000, chr1_tad 1000000 1140000, chr1_tad 1150000 1300000]
       100000 (11 / 10)) clr_blank clr_blank mwu_by_size = Inl UnboundLocalError \<and>
   main_split_merge_detection_func (clr_blank, clr_blank, mwu_by_size, 100000,
       [chr1_tad 1000000 1300000],
       [chr1_tad 0 500000, chr1_tad 1000000 1140000, chr1_tad 1150000 1300000])
     = ([], Inl UnboundLocalError)"
proof -
  let ?df = "find_split [chr1_tad 1000000 1300000]
       [chr1_tad 0 500000, chr1_tad 1000000 1140000, chr1_tad 1150000 1300000]
       100000 (11 / 10)"
  have h1: "?df \<noteq> []" by code_simp
  have h2: "fst (hd ?df) = 1" by code_simp
  then have h3: "fst (hd ?df) \<noteq> 0" by simp
  have h4: "main_split_merge_detection_func (clr_blank, clr_blank, mwu_by_size, 100000,
       [chr1_tad 1000000 1300000],
       [chr1_tad 0 500000, chr1_tad 1000000 1140000, chr1_tad 1150000 1300000])
     = ([], Inl UnboundLocalError)" by code_simp
  from choose_region_first_label_not_0 [OF h1 h3, of clr_blank clr_blank mwu_by_size] h1 h2 h4
  show ?thesis by simp
qed

text \<open>C4, as the spec words it, fails on a candidate frame. The first table lists the
  main TAD from 1000000 to 1300000 three times, once before and twice after another main
  TAD. The scan scores runs of rows: the group of that main TAD comes in two runs, is
  scored twice, on two and on four small TADs, and its rows carry two p-values, \<open>1/5\<close>
  on the labels 0 and 1 and \<open>1/9\<close> on the labels 4 to 7.\<close>

theorem choose_region_group_in_two_runs_counterexample:
  "map_sum id (\<lambda>(out, calls). (map (\<lambda>(i, r, p). (i, main_of r, p)) out, calls))
     (choose_region split_listed_thrice clr_blank clr_blank mwu_by_size)
   = Inr ([(0, (''chr1'', 850000, 1450000), Num (1 / 5)),
           (1, (''chr1'', 850000, 1450000), Num (1 / 5)),
           (2, (''chr1'', 850000, 1350000), Num (1 / 5)),
           (3, (''chr1'', 850000, 1350000), Num (1 / 5)),
           (4, (''chr1'', 850000, 1450000), Num (1 / 9)),
           (5, (''chr1'', 850000, 1450000), Num (1 / 9)),
           (6, (''chr1'', 850000, 1450000), Num (1 / 9)),
           (7, (''chr1'', 850000, 1450000), Num (1 / 9))],
          [((''chr1'', 850000, 1450000), [(1000000, 1050000), (1100000, 1150000)]),
           ((''chr1'', 850000, 1350000), [(1000000, 1050000), (1100000, 1150000)]),
           ((''chr1'', 850000, 1450000),
            [(1000000, 1050000), (1100000, 1150000), (1000000, 1050000), (1100000, 1150000)])])"
  by code_simp

text \<open>C4, amended. Take a candidate frame whose labels grow strictly and in which the
  rows of every \<^verbatim>\<open>(chrom, start_tad1, end_tad1)\<close> group stand together; the frames of
  the pipeline are such when the first table lists no TAD twice (\<open>pipeline_frame_fits\<close>).
  Whenever \<^verbatim>\<open>choose_region\<close>
  returns a frame: its rows are the rows it was given, in order, so each row is in the
  one group of its main TAD; \<^verbatim>\<open>create_diff_matrix\<close> has been called once per group, in
  order of first appearance, on all small TADs of the group; every row carries the
  p-value that the call for its group returned; so the rows of a group carry one and the
  same p-value.\<close>

theorem choose_region_one_pvalue_per_group:
  assumes "sorted_wrt (<) (map fst df)"
    and "consecutive_groups (mains df)"
    and "choose_region df clr_1 clr_2 mwu = Inr (out, calls)"
  shows "strip out = df \<and>
         map fst calls = unique (mains df) \<and>
         (\<forall>(m, s) \<in> set calls. s = group_smalls df m) \<and>
         (\<forall>(i, r, p) \<in> set out.
            create_diff_matrix (main_of r) (group_smalls df (main_of r)) clr_1 clr_2 mwu = Inr p) \<and>
         (\<forall>(i, r, p) \<in> set out. \<forall>(i', r', p') \<in> set out. main_of r = main_of r' \<longrightarrow> p = p')"
  using assms by (rule choose_region_groups)

text \<open>The frame of one main TAD split in two meets the conditions: two rows, one group,
  one call, one p-value.\<close>

theorem choose_region_one_pvalue_per_group_witness:
  "sorted_wrt (<) (map fst split_in_two) \<and>
   consecutive_groups (mains split_in_two) \<and>
   choose_region split_in_two clr_blank clr_blank mwu_by_size
     = Inr ([(0, \<lparr>chrom = ''chr1'', start_tad1 = 850000, end_tad1 = 1450000, size_tad1 = 330000,
                   start_tad2 = 1000000, end_tad2 = 1140000, size_tad2 = 140000\<rparr>, Num (1 / 6)),
             (1, \<lparr>chrom = ''chr1'', start_tad1 = 850000, end_tad1 = 1450000, size_tad1 = 330000,
                   start_tad2 = 1150000, end_tad2 = 1300000, size_tad2 = 150000\<rparr>, Num (1 / 6))],
            [((''chr1'', 850000, 1450000), [(1000000, 1140000), (1150000, 1300000)])]) \<and>
   strip [(0, \<lparr>chrom = ''chr1'', start_tad1 = 850000, end_tad1 = 1450000, size_tad1 = 330000,
                   start_tad2 = 1000000, end_tad2 = 1140000, size_tad2 = 140000\<rparr>, Num (1 / 6)),
             (1, \<lparr>chrom = ''chr1'', start_tad1 = 850000, end_tad1 = 1450000, size_tad1 = 330000,
                   start_tad2 = 1150000, end_tad2 = 1300000, size_tad2 = 150000\<rparr>, Num (1 / 6))]
     = split_in_two \<and>
   map fst [((''chr1'', 850000 :: real, 1450000 :: real), [(1000000 :: real, 1140000 :: real), (1150000, 1300000)])]
     = unique (mains split_in_two)"
proof -
  have h1: "sorted_wrt (<) (map fst split_in_two)"
    unfolding split_in_two_def by (rule find_split_labels_sorted)
  have h2: "consecutive_groups (mains split_in_two)" by code_simp
  have h3: "choose_region split_in_two clr_blank clr_blank mwu_by_size
     = Inr ([(0, \<lparr>chrom = ''chr1'', start_tad1 = 850000, end_tad1 = 1450000, size_tad1 = 330000,
                   start_tad2 = 1000000, end_tad2 = 1140000, size_tad2 = 140000\<rparr>, Num (1 / 6)),
             (1, \<lparr>chrom = ''chr1'', start_tad1 = 850000, end_tad1 = 1450000, size_tad1 = 330000,
                   start_tad2 = 1150000, end_tad2 = 1300000, size_tad2 = 150000\<rparr>, Num (1 / 6))],
            [((''chr1'', 850000, 1450000), [(1000000, 1140000), (1150000, 1300000)])])"
    by code_simp
  from choose_region_one_pvalue_per_group [OF h1 h2 h3] h1 h2 h3 show ?thesis by blast
qed

subsection \<open>Pipeline and decorator\<close>

lemma saved_keys:
  "map (\<lambda>(i, r). if opt = ''merge'' then (start_2 r, end_2 r) else (start_1 r, end_1 r))
     (map (\<lambda>(i, r, p). (i, rename_row opt r p)) d)
   = map (\<lambda>(i, r, p). (start_tad1 r, end_tad1 r)) d"
  by (simp add: rename_row_def split_beta)

text \<open>One round of the pipeline that ends well has written its table last, and its count
  is the number of distinct pairs in the main-TAD columns of that table: \<^verbatim>\<open>start_1\<close>,
  \<^verbatim>\<open>end_1\<close> for a split, \<^verbatim>\<open>start_2\<close>, \<^verbatim>\<open>end_2\<close> for a merge.\<close>

lemma detect_option_count:
  assumes "detect_option clr_1 clr_2 mwu binsize opt tad1 tad2 = (eff, Inr n)"
  shows "\<exists>w saved. eff = w @ [ToCsv (opt @ ''_coords.csv'') saved] \<and>
           n = card ((\<lambda>(i, r). if opt = ''merge'' then (start_2 r, end_2 r)
                                else (start_1 r, end_1 r)) ` set saved)"
proof -
  obtain warned cl where g: "get_chrom_list tad1 tad2 = (warned, cl)"
    by (cases "get_chrom_list tad1 tad2")
  let ?w = "if warned then [Warning ''Different numbers of chromosomes were detected!''] else []"
  from assms g obtain tbl where tbl: "collect_splits tad1 tad2 cl None = Some tbl"
    by (cases "collect_splits tad1 tad2 cl None") (simp_all add: detect_option_def Let_def)
  from assms g tbl obtain final calls where
    ch: "choose_region tbl clr_1 clr_2 mwu = Inr (final, calls)"
    by (cases "choose_region tbl clr_1 clr_2 mwu") (auto simp: detect_option_def Let_def)
  let ?d = "demodify_tads_map final binsize"
  let ?saved = "map (\<lambda>(i, r, p). (i, rename_row opt r p)) ?d"
  from assms g tbl ch have eff: "eff = ?w @ [ToCsv (opt @ ''_coords.csv'') ?saved]"
    and n: "n = length (unique (map (\<lambda>(i, r, p). (start_tad1 r, end_tad1 r)) ?d))"
    by (simp_all add: detect_option_def save_frame_def Let_def)
  have "(\<lambda>(i, r). if opt = ''merge'' then (start_2 r, end_2 r) else (start_1 r, end_1 r)) ` set ?saved
        = set (map (\<lambda>(i, r). if opt = ''merge'' then (start_2 r, end_2 r)
                            else (start_1 r, end_1 r)) ?saved)"
    by (simp only: set_map)
  also have "\<dots> = set (map (\<lambda>(i, r, p). (start_tad1 r, end_tad1 r)) ?d)"
    by (simp only: saved_keys)
  finally have "(\<lambda>(i, r). if opt = ''merge'' then (start_2 r, end_2 r) else (start_1 r, end_1 r)) ` set ?saved
        = set (map (\<lambda>(i, r, p). (start_tad1 r, end_tad1 r)) ?d)" .
  with n have "n = card ((\<lambda>(i, r). if opt = ''merge'' then (start_2 r, end_2 r)
                                else (start_1 r, end_1 r)) ` set ?saved)"
    by (simp only: unique_length_card)
  with eff show ?thesis by blast
qed

text \<open>C1, as the spec words it, fails: the name \<^verbatim>\<open>main_split_merge_detection\<close> stands for
  the decorated function, and the wrapper of \<^verbatim>\<open>wrapper_print\<close> returns nothing. On one
  main TAD split in two, the body counts one split and no merge, the wrapper prints the
  pair, and the value of the call is \<^verbatim>\<open>None\<close>.\<close>

theorem main_split_merge_detection_returns_None_counterexample:
  "main_split_merge_detection (clr_blank, clr_blank, mwu_by_size, 100000,
       [chr1_tad 1000000 1300000],
       [chr1_tad 1000000 1140000, chr1_tad 1150000 1300000])
   = Inr ([ToCsv ''split_coords.csv''
             [(0, \<lparr>out_chrom = ''chr1'', start_1 = 1000000, end_1 = 1300000,
                   start_2 = 1000000, end_2 = 1140000, pvalue = Num (1 / 6)\<rparr>),
              (1, \<lparr>out_chrom = ''chr1'', start_1 = 1000000, end_1 = 1300000,
                   start_2 = 1150000, end_2 = 1300000, pvalue = Num (1 / 6)\<rparr>)],
           ToCsv ''merge_coords.csv'' []],
          [Stderr ''Searching splits and merges in TADs...'',
           Stderr ''Completed successfully!'',
           Stdout ''The number of splits|merges: '' (1, 0)],
          None)"
  by code_simp

text \<open>C1, amended. Whenever the body of \<^verbatim>\<open>main_split_merge_detection\<close> runs to its end,
  it has written the split table and then the merge table, and the pair it returns
  holds the number of distinct \<^verbatim>\<open>(start_tad1, end_tad1)\<close> main-TAD groups of each: these
  are the columns \<^verbatim>\<open>start_1\<close>, \<^verbatim>\<open>end_1\<close> of the split table and \<^verbatim>\<open>start_2\<close>, \<^verbatim>\<open>end_2\<close> of
  the merge table. The decorated function prints that pair and returns \<^verbatim>\<open>None\<close>.\<close>

theorem main_split_merge_detection_counts:
  assumes "main_split_merge_detection_func (clr_1, clr_2, mwu, binsize, tad1, tad2)
             = (eff, Inr (n_split, n_merge))"
  shows "\<exists>w1 split_saved w2 merge_saved.
           eff = w1 @ [ToCsv ''split_coords.csv'' split_saved]
                 @ w2 @ [ToCsv ''merge_coords.csv'' merge_saved] \<and>
           n_split = card ((\<lambda>(i, r). (start_1 r, end_1 r)) ` set split_saved) \<and>
           n_merge = card ((\<lambda>(i, r). (start_2 r, end_2 r)) ` set merge_saved) \<and>
           main_split_merge_detection (clr_1, clr_2, mwu, binsize, tad1, tad2)
             = Inr (eff,
                    [Stderr ''Searching splits and merges in TADs...'',
                     Stderr ''Completed successfully!'',
                     Stdout ''The number of splits|merges: '' (n_split, n_merge)],
                    None)"
proof -
  obtain io1 res1 where r1: "detect_option clr_1 clr_2 mwu binsize ''split'' tad1 tad2 = (io1, res1)"
    by (cases "detect_option clr_1 clr_2 mwu binsize ''split'' tad1 tad2")
  obtain io2 res2 where r2: "detect_option clr_1 clr_2 mwu binsize ''merge'' tad2 tad1 = (io2, res2)"
    by (cases "detect_option clr_1 clr_2 mwu binsize ''merge'' tad2 tad1")
  from assms r1 r2 have res: "res1 = Inr n_split \<and> res2 = Inr n_merge \<and> eff = io1 @ io2"
    by (cases res1; cases res2) (simp_all add: main_split_merge_detection_func_def)
  then have eff: "eff = io1 @ io2" by blast
  from res r1 have d1: "detect_option clr_1 clr_2 mwu binsize ''split'' tad1 tad2 = (io1, Inr n_split)"
    by simp
  from res r2 have d2: "detect_option clr_1 clr_2 mwu binsize ''merge'' tad2 tad1 = (io2, Inr n_merge)"
    by simp
  from detect_option_count [OF d1] obtain w1 s1 where
    1: "io1 = w1 @ [ToCsv ''split_coords.csv'' s1]"
       "n_split = card ((\<lambda>(i, r). (start_1 r, end_1 r)) ` set s1)"
    by auto
  from detect_option_count [OF d2] obtain w2 s2 where
    2: "io2 = w2 @ [ToCsv ''merge_coords.csv'' s2]"
       "n_merge = card ((\<lambda>(i, r). (start_2 r, end_2 r)) ` set s2)"
    by auto
  have dec: "main_split_merge_detection (clr_1, clr_2, mwu, binsize, tad1, tad2)
             = Inr (eff,
                    [Stderr ''Searching splits and merges in TADs...'',
                     Stderr ''Completed successfully!'',
                     Stdout ''The number of splits|merges: '' (n_split, n_merge)],
                    None)"
    using assms by (simp add: main_split_merge_detection_def wrapper_print_def FUNC_NAMES_def)
  from 1 2 eff dec show ?thesis by (intro exI [of _ w1] exI [of _ s1] exI [of _ w2] exI [of _ s2]) simp
qed

text \<open>The run on one main TAD split in two ends well, with one split and no merge.\<close>

theorem main_split_merge_detection_counts_witness:
  "main_split_merge_detection_func (clr_blank, clr_blank, mwu_by_size, 100000,
       [chr1_tad 1000000 1300000],
       [chr1_tad 1000000 1140000, chr1_tad 1150000 1300000])
   = ([ToCsv ''split_coords.csv''
         [(0, \<lparr>out_chrom = ''chr1'', start_1 = 1000000, end_1 = 1300000,
               start_2 = 1000000, end_2 = 1140000, pvalue = Num (1 / 6)\<rparr>),
          (1, \<lparr>out_chrom = ''chr1'', start_1 = 1000000, end_1 = 1300000,
               start_2 = 1150000, end_2 = 1300000, pvalue = Num (1 / 6)\<rparr>)],
       ToCsv ''merge_coords.csv'' []],
      Inr (1, 0)) \<and>
   snd (snd (projr (main_split_merge_detection (clr_blank, clr_blank, mwu_by_size, 100000,
       [chr1_tad 1000000 1300000],
       [chr1_tad 1000000 1140000, chr1_tad 1150000 1300000])))) = None"
proof -
  have h: "main_split_merge_detection_func (clr_blank, clr_blank, mwu_by_size, 100000,
       [chr1_tad 1000000 1300000],
       [chr1_tad 1000000 1140000, chr1_tad 1150000 1300000])
   = ([ToCsv ''split_coords.csv''
         [(0, \<lparr>out_chrom = ''chr1'', start_1 = 1000000, end_1 = 1300000,
               start_2 = 1000000, end_2 = 1140000, pvalue = Num (1 / 6)\<rparr>),
          (1, \<lparr>out_chrom = ''chr1'', start_1 = 1000000, end_1 = 1300000,
               start_2 = 1150000, end_2 = 1300000, pvalue = Num (1 / 6)\<rparr>)],
       ToCsv ''merge_coords.csv'' []],
      Inr (1, 0))"
    by code_simp
  from main_split_merge_detection_counts [OF h] h show ?thesis by force
qed

end
